theory Spec2Isabelle
  imports Complex_Main
begin

section \<open>The classical UD-MIS solver of the cohort project\<close>

text \<open>
  The class \<open>UDMIS\<close> of the Monte Carlo notebook, embedded function by function.
  The interaction strength and the energies are binary64 floating-point values, and
  \<open>energy\<close> and \<open>energy_diff\<close> round after every multiplication, addition and
  subtraction as the hardware does; counters are Python integers. The coordinates of
  the points and the distance test of \<open>find_edges\<close> are kept in exact real
  arithmetic. The two module-level names that the methods read, \<open>u\<close> and \<open>graph\<close>,
  are passed explicitly as a record of globals and are taken to be bound. An exception
  is the \<open>Inl\<close> branch of a sum.
\<close>

subsection \<open>Exceptions and indexing\<close>

datatype py_error = IndexError

type_synonym 'a result = "py_error + 'a"

definition bind_result :: "'a result \<Rightarrow> ('a \<Rightarrow> 'b result) \<Rightarrow> 'b result" where
  "bind_result m f = (case m of Inl e \<Rightarrow> Inl e | Inr v \<Rightarrow> f v)"

text \<open>
  Python and numpy indexing along an axis of length \<open>n\<close>: an index in \<open>[0, n)\<close> is taken
  as it is, one in \<open>[-n, 0)\<close> counts from the end, anything else raises \<open>IndexError\<close>.
\<close>

definition norm_index :: "nat \<Rightarrow> int \<Rightarrow> nat result" where
  "norm_index n i =
     (if 0 \<le> i \<and> i < int n then Inr (nat i)
      else if - int n \<le> i \<and> i < 0 then Inr (nat (int n + i))
      else Inl IndexError)"

definition py_get :: "'a list \<Rightarrow> int \<Rightarrow> 'a result" where
  "py_get xs i = bind_result (norm_index (length xs) i) (\<lambda>k. Inr (xs ! k))"

definition py_set :: "'a list \<Rightarrow> int \<Rightarrow> 'a \<Rightarrow> 'a list result" where
  "py_set xs i v = bind_result (norm_index (length xs) i) (\<lambda>k. Inr (xs[k := v]))"

text \<open>A two-dimensional numpy array is the list of its rows; \<open>a[i, j]\<close> checks both axes.\<close>

definition np_get2 :: "'a list list \<Rightarrow> int \<Rightarrow> int \<Rightarrow> 'a result" where
  "np_get2 a i j = bind_result (py_get a i) (\<lambda>row. py_get row j)"

definition np_set2 :: "'a list list \<Rightarrow> int \<Rightarrow> int \<Rightarrow> 'a \<Rightarrow> 'a list list result" where
  "np_set2 a i j v =
     bind_result (py_get a i) (\<lambda>row.
     bind_result (py_set row j v) (\<lambda>row'. py_set a i row'))"

text \<open>A \<open>for\<close> loop over a list of indices, threading the loop's variables; it stops at
  the first exception.\<close>

primrec for_loop :: "'i list \<Rightarrow> ('i \<Rightarrow> 's \<Rightarrow> 's result) \<Rightarrow> 's \<Rightarrow> 's result" where
  "for_loop [] body s = Inr s"
| "for_loop (x # xs) body s = bind_result (body x s) (for_loop xs body)"

text \<open>Fancy indexing \<open>a[idx]\<close> with an index array: every index is checked.\<close>

primrec np_take :: "'a list \<Rightarrow> nat list \<Rightarrow> 'a list result" where
  "np_take a [] = Inr []"
| "np_take a (k # ks) =
     bind_result (py_get a (int k)) (\<lambda>v.
     bind_result (np_take a ks) (\<lambda>vs. Inr (v # vs)))"

subsection \<open>Binary64 arithmetic\<close>

text \<open>
  A binary64 value is a real number, an infinity or NaN. The two zeros are identified:
  they compare equal and no operation used here tells them apart. \<open>round64\<close> rounds
  a real number to the nearest value with a 53-bit significand, ties to even, with
  gradual underflow below \<open>2\<^sup>-\<^sup>1\<^sup>0\<^sup>2\<^sup>2\<close> and overflow to an infinity from
  \<open>2\<^sup>1\<^sup>0\<^sup>2\<^sup>4\<close> on. \<open>quantum x\<close> is the exponent of the unit in the last place at
  \<open>x\<close>.
\<close>

datatype float64 = Finite real | PInf | NInf | NaN

definition pow2 :: "int \<Rightarrow> real" where
  "pow2 e = (if 0 \<le> e then 2 ^ nat e else inverse (2 ^ nat (- e)))"

definition round_even :: "real \<Rightarrow> int" where
  "round_even x =
     (let f = \<lfloor>x\<rfloor>; d = x - of_int f in
      if d < 1 / 2 then f else if 1 / 2 < d then f + 1
      else if even f then f else f + 1)"

definition quantum :: "real \<Rightarrow> int" where
  "quantum x = max (\<lfloor>log 2 \<bar>x\<bar>\<rfloor> - 52) (- 1074)"

definition round64 :: "real \<Rightarrow> float64" where
  "round64 x =
     (if x = 0 then Finite 0
      else let y = of_int (round_even (x / pow2 (quantum x))) * pow2 (quantum x) in
        if 2 ^ 1024 \<le> \<bar>y\<bar> then (if 0 < x then PInf else NInf) else Finite y)"

definition fneg :: "float64 \<Rightarrow> float64" where
  "fneg a = (case a of Finite x \<Rightarrow> Finite (- x) | PInf \<Rightarrow> NInf | NInf \<Rightarrow> PInf | NaN \<Rightarrow> NaN)"

fun fadd :: "float64 \<Rightarrow> float64 \<Rightarrow> float64" where
  "fadd (Finite x) (Finite y) = round64 (x + y)"
| "fadd NaN b = NaN"
| "fadd a NaN = NaN"
| "fadd PInf NInf = NaN"
| "fadd NInf PInf = NaN"
| "fadd PInf b = PInf"
| "fadd NInf b = NInf"
| "fadd a PInf = PInf"
| "fadd a NInf = NInf"

definition fsub :: "float64 \<Rightarrow> float64 \<Rightarrow> float64" where
  "fsub a b = fadd a (fneg b)"

text \<open>An infinity of the given sign times a finite number.\<close>

definition inf_times :: "bool \<Rightarrow> real \<Rightarrow> float64" where
  "inf_times positive y =
     (if y = 0 then NaN else if (0 < y) = positive then PInf else NInf)"

fun fmul :: "float64 \<Rightarrow> float64 \<Rightarrow> float64" where
  "fmul (Finite x) (Finite y) = round64 (x * y)"
| "fmul NaN b = NaN"
| "fmul a NaN = NaN"
| "fmul PInf (Finite y) = inf_times True y"
| "fmul NInf (Finite y) = inf_times False y"
| "fmul (Finite x) PInf = inf_times True x"
| "fmul (Finite x) NInf = inf_times False x"
| "fmul PInf PInf = PInf"
| "fmul NInf NInf = PInf"
| "fmul PInf NInf = NInf"
| "fmul NInf PInf = NInf"

text \<open>The conversion of an integer counter to binary64 in a mixed operation.\<close>

definition of_count :: "int \<Rightarrow> float64" where
  "of_count n = round64 (of_int n)"

subsection \<open>The solver's state and the module's globals\<close>

type_synonym point = "real \<times> real"

record globals =
  g_u :: float64
  g_graph :: "point list"

record udmis =
  u :: float64
  graph :: "point list"
  num_vertices :: nat
  occupations :: "bool list"
  edges :: "bool list list"

subsection \<open>\<open>UDMIS.find_edges\<close>\<close>

text \<open>
  The method sizes the matrix by \<open>self.num_vertices\<close> but reads the coordinates from the
  module-level \<open>graph\<close>, not from \<open>self.graph\<close>.
\<close>

definition find_edges :: "globals \<Rightarrow> udmis \<Rightarrow> bool list list result" where
  "find_edges gl self =
     (let edges0 = replicate (num_vertices self) (replicate (num_vertices self) False) in
      for_loop [0..<num_vertices self - 1] (\<lambda>i edges1.
        bind_result (py_get (g_graph gl) (int i)) (\<lambda>(x_i, y_i).
          for_loop [i + 1..<num_vertices self] (\<lambda>j edges2.
            bind_result (py_get (g_graph gl) (int j)) (\<lambda>(x_j, y_j).
              let dij = sqrt ((x_i - x_j)\<^sup>2 + (y_i - y_j)\<^sup>2) in
              if dij \<le> 1 then
                bind_result (np_set2 edges2 (int i) (int j) True) (\<lambda>edges3.
                  np_set2 edges3 (int j) (int i) True)
              else Inr edges2))
            edges1))
        edges0)"

subsection \<open>\<open>UDMIS.__init__\<close>\<close>

text \<open>
  \<open>np.random.rand(n)\<close> is the first \<open>n\<close> values of a stream of draws \<open>rand\<close>, a
  parameter of the model. The attribute \<open>edges\<close> does not exist before
  \<open>find_edges\<close> returns; the record holds the empty matrix until then, and
  \<open>find_edges\<close> does not read it. The initialiser of the base class, which is not
  among the sources, and the \<open>print\<close> of the vertex count are left out: neither
  touches the five attributes.
\<close>

definition UDMIS_init :: "globals \<Rightarrow> (nat \<Rightarrow> real) \<Rightarrow> float64 \<Rightarrow> point list \<Rightarrow> udmis result" where
  "UDMIS_init gl rand u0 graph0 =
     (let self = \<lparr>u = u0, graph = graph0, num_vertices = length graph0,
                  occupations = map (\<lambda>k. rand k < 1 / 2) [0..<length graph0],
                  edges = []\<rparr>
      in bind_result (find_edges gl self) (\<lambda>e. Inr (self\<lparr>edges := e\<rparr>)))"

subsection \<open>\<open>UDMIS.energy\<close>\<close>

text \<open>The product of two numpy booleans is their conjunction; added to an integer it
  counts as 0 or 1. The result multiplies the module-level \<open>u\<close> by the integer
  \<open>interaction_term\<close> and subtracts the integer \<open>vertex_term\<close>, each converted to
  binary64 and each operation rounded; an overflow gives an infinity, not an
  exception.\<close>

definition energy :: "globals \<Rightarrow> udmis \<Rightarrow> float64 result" where
  "energy gl self =
     bind_result
       (for_loop [0..<num_vertices self - 1] (\<lambda>i (interaction_term, vertex_term).
          bind_result
            (for_loop [i + 1..<num_vertices self] (\<lambda>j interaction_term'.
               bind_result (np_get2 (edges self) (int i) (int j)) (\<lambda>e.
                 if e then
                   bind_result (py_get (occupations self) (int i)) (\<lambda>oi.
                   bind_result (py_get (occupations self) (int j)) (\<lambda>oj.
                     Inr (interaction_term' + (if oi \<and> oj then 1 else 0))))
                 else Inr interaction_term'))
               interaction_term)
            (\<lambda>interaction_term'.
               bind_result (py_get (occupations self) (int i)) (\<lambda>oi.
                 Inr (interaction_term', vertex_term + (if oi then 1 else 0)))))
          (0 :: int, 0 :: int))
       (\<lambda>(interaction_term, vertex_term).
          bind_result (py_get (occupations self) (int (num_vertices self) - 1)) (\<lambda>ol.
            Inr (fsub (fmul (g_u gl) (of_count interaction_term))
                      (of_count (vertex_term + (if ol then 1 else 0))))))"

subsection \<open>\<open>UDMIS.energy_diff\<close>\<close>

text \<open>\<open>-u*num_adjacent_occupied\<close> negates \<open>u\<close> and then multiplies; the sum with
  \<open>vertex_term_change\<close> (\<open>1.\<close> or \<open>-1.\<close>) is rounded again.\<close>

definition energy_diff :: "globals \<Rightarrow> udmis \<Rightarrow> int \<Rightarrow> float64 result" where
  "energy_diff gl self i =
     bind_result (py_get (edges self) i) (\<lambda>row.
       let connections = filter (\<lambda>j. row ! j) [0..<length row] in
       bind_result (np_take (occupations self) connections) (\<lambda>occ.
         let num_adjacent_occupied = int (length (filter (\<lambda>b. b) occ)) in
         bind_result (py_get (occupations self) i) (\<lambda>oi.
           if oi then
             Inr (fadd (fmul (fneg (g_u gl)) (of_count num_adjacent_occupied)) (Finite 1))
           else
             Inr (fadd (fmul (g_u gl) (of_count num_adjacent_occupied)) (Finite (- 1))))))"

subsection \<open>The Metropolis step\<close>

text \<open>
  Modelled from the spec: the stepping method \<open>mc_step\<close> of the base class
  \<open>AbstractUDMIS\<close> (module \<open>abstract_udmis\<close>), which the notebooks import and call
  but which is not among the sources. The spec's \<open>MetropolisStep\<close>: pick
  \<open>i = RandomVertex()\<close>, compute \<open>\<Delta>E = EnergyDelta(i)\<close>, toggle \<open>occ[i]\<close> if
  \<open>\<Delta>E \<le> 0\<close> and otherwise when a draw compared against \<open>exp(-\<Delta>E / temperature)\<close>
  accepts, and return \<open>TotalEnergy()\<close> of the configuration after the step. The two
  random draws are parameters: \<open>i\<close> is the vertex drawn from \<open>{0..n-1}\<close> and \<open>r\<close> the
  draw from \<open>[0, 1)\<close> that is compared against the acceptance probability. The
  temperature, the draw and the acceptance probability are real numbers. For a
  \<open>\<Delta>E\<close> that is not finite the rule is read with the usual limits: \<open>-\<infinity> \<le> 0\<close>
  accepts, \<open>+\<infinity>\<close> has acceptance probability 0, and every comparison with NaN
  is false.
\<close>

definition accepts :: "float64 \<Rightarrow> real \<Rightarrow> real \<Rightarrow> bool" where
  "accepts dE r temperature =
     (case dE of
        Finite d \<Rightarrow> d \<le> 0 \<or> r < exp (- d / temperature)
      | NInf \<Rightarrow> True
      | PInf \<Rightarrow> False
      | NaN \<Rightarrow> False)"

definition MetropolisStep :: "globals \<Rightarrow> nat \<Rightarrow> real \<Rightarrow> real \<Rightarrow> udmis \<Rightarrow> (udmis \<times> float64) result" where
  "MetropolisStep gl i r temperature self =
     bind_result (energy_diff gl self (int i)) (\<lambda>dE.
     bind_result
       (if accepts dE r temperature then
          bind_result (py_get (occupations self) (int i)) (\<lambda>b.
          bind_result (py_set (occupations self) (int i) (\<not> b)) (\<lambda>occ.
            Inr (self\<lparr>occupations := occ\<rparr>)))
        else Inr self)
       (\<lambda>self'. bind_result (energy gl self') (\<lambda>E. Inr (self', E))))"

section \<open>Specification-level notions\<close>

text \<open>The Euclidean distance of two points is the modulus of their difference as complex
  numbers; the unit-disk radius is 1.\<close>

definition within_radius :: "point \<Rightarrow> point \<Rightarrow> bool" where
  "within_radius p q = (cmod (Complex (fst p) (snd p) - Complex (fst q) (snd q)) \<le> 1)"

text \<open>The shape that the constructor gives the arrays: \<open>n\<close> occupations and an
  \<open>n \<times> n\<close> matrix.\<close>

definition well_formed :: "udmis \<Rightarrow> bool" where
  "well_formed self =
     (length (occupations self) = num_vertices self \<and>
      length (edges self) = num_vertices self \<and>
      (\<forall>a<num_vertices self. length (edges self ! a) = num_vertices self))"

definition symmetric_irreflexive :: "nat \<Rightarrow> bool list list \<Rightarrow> bool" where
  "symmetric_irreflexive n e =
     (\<forall>a<n. \<not> e ! a ! a \<and> (\<forall>b<n. e ! a ! b = e ! b ! a))"

text \<open>The loop invariant of \<open>find_edges\<close>: when the outer loop is at row \<open>i\<close> and the
  inner loop at column \<open>j\<close>, exactly the close pairs visited so far are marked, in both
  orientations.\<close>

definition edges_inv :: "point list \<Rightarrow> nat \<Rightarrow> nat \<Rightarrow> nat \<Rightarrow> bool list list \<Rightarrow> bool" where
  "edges_inv g n i j e =
     (length e = n \<and> (\<forall>a<n. length (e ! a) = n) \<and>
      (\<forall>a<n. \<forall>b<n. e ! a ! b =
         (a \<noteq> b \<and> within_radius (g ! min a b) (g ! max a b) \<and>
          (min a b < i \<or> (min a b = i \<and> max a b < j)))))"

text \<open>The summands of the Hamiltonian and of the neighbour count.\<close>

definition pair_term :: "bool list list \<Rightarrow> bool list \<Rightarrow> nat \<Rightarrow> nat \<Rightarrow> int" where
  "pair_term e occ a b = (if e ! a ! b \<and> occ ! a \<and> occ ! b then 1 else 0)"

definition site_term :: "bool list \<Rightarrow> nat \<Rightarrow> int" where
  "site_term occ a = (if occ ! a then 1 else 0)"

definition nbr_term :: "bool list list \<Rightarrow> bool list \<Rightarrow> nat \<Rightarrow> nat \<Rightarrow> int" where
  "nbr_term e occ i b = (if e ! i ! b \<and> occ ! b then 1 else 0)"

text \<open>The three counters: occupied adjacent pairs \<open>a < b\<close>, occupied vertices, and
  occupied neighbours of a vertex.\<close>

definition pair_count :: "udmis \<Rightarrow> int" where
  "pair_count self =
     (\<Sum>a<num_vertices self. \<Sum>b = Suc a..<num_vertices self.
        pair_term (edges self) (occupations self) a b)"

definition site_count :: "udmis \<Rightarrow> int" where
  "site_count self = (\<Sum>a<num_vertices self. site_term (occupations self) a)"

definition nbr_count :: "udmis \<Rightarrow> nat \<Rightarrow> int" where
  "nbr_count self i =
     (\<Sum>b<num_vertices self. nbr_term (edges self) (occupations self) i b)"

subsection \<open>A small instance\<close>

text \<open>The notebook's \<open>u = 1.35\<close>: the literal denotes the binary64 value nearest to
  it.\<close>

definition u_notebook :: float64 where
  "u_notebook = Finite (3039929748475085 / 2 ^ 51)"

text \<open>The first three points of the notebook's graph with its \<open>u\<close>; only vertices 0
  and 2 are within the radius of each other.\<close>

definition ex_points :: "point list" where
  "ex_points = [(119 / 100, 17 / 4), (271 / 100, 87 / 25), (119 / 100, 351 / 100)]"

definition ex_globals :: globals where
  "ex_globals = \<lparr>g_u = u_notebook, g_graph = ex_points\<rparr>"

definition ex_rand :: "nat \<Rightarrow> real" where
  "ex_rand k = (if k = 1 then 3 / 4 else 1 / 4)"

definition ex_edges :: "bool list list" where
  "ex_edges = [[False, False, True], [False, False, False], [True, False, False]]"

definition ex_state :: udmis where
  "ex_state = \<lparr>u = u_notebook, graph = ex_points, num_vertices = 3,
               occupations = [True, False, True], edges = ex_edges\<rparr>"

text \<open>A fully connected triangle with \<open>u = 2\<close>; its coordinates and all distances
  computed from them are exact in binary64.\<close>

definition tri_points :: "point list" where
  "tri_points = [(0, 0), (1 / 2, 0), (0, 1 / 2)]"

definition tri_globals :: globals where
  "tri_globals = \<lparr>g_u = Finite 2, g_graph = tri_points\<rparr>"

text \<open>The same triangle under the notebook's \<open>u\<close>.\<close>

definition tri135_globals :: globals where
  "tri135_globals = \<lparr>g_u = u_notebook, g_graph = tri_points\<rparr>"

definition tri_state :: udmis where
  "tri_state = \<lparr>u = Finite 2, graph = tri_points, num_vertices = 3,
                occupations = [True, False, True],
                edges = [[False, True, True], [True, False, True], [True, True, False]]\<rparr>"

section \<open>Indexing and loops\<close>


lemma bind_result_Inr [simp]: "bind_result (Inr v) f = f v"
  by (simp add: bind_result_def)

lemma bind_result_Inl [simp]: "bind_result (Inl e) f = Inl e"
  by (simp add: bind_result_def)

lemma norm_index_nat: "k < n \<Longrightarrow> norm_index n (int k) = Inr k"
  by (simp add: norm_index_def)

lemma norm_index_out: "n \<le> k \<Longrightarrow> norm_index n (int k) = Inl IndexError"
  by (simp add: norm_index_def)

lemma py_get_nat: "k < length xs \<Longrightarrow> py_get xs (int k) = Inr (xs ! k)"
  by (simp add: py_get_def norm_index_nat)

lemma py_get_out: "length xs \<le> k \<Longrightarrow> py_get xs (int k) = Inl IndexError"
  by (simp add: py_get_def norm_index_out)

lemma py_set_nat: "k < length xs \<Longrightarrow> py_set xs (int k) v = Inr (xs[k := v])"
  by (simp add: py_set_def norm_index_nat)

lemma np_get2_nat:
  "i < length a \<Longrightarrow> j < length (a ! i) \<Longrightarrow> np_get2 a (int i) (int j) = Inr (a ! i ! j)"
  by (simp add: np_get2_def py_get_nat)

lemma np_set2_nat:
  "i < length a \<Longrightarrow> j < length (a ! i) \<Longrightarrow>
   np_set2 a (int i) (int j) v = Inr (a[i := (a ! i)[j := v]])"
  by (simp add: np_set2_def py_get_nat py_set_nat)

lemma for_loop_append:
  "for_loop (xs @ ys) body s = bind_result (for_loop xs body s) (for_loop ys body)"
  by (induction xs arbitrary: s) (auto simp: bind_result_def split: sum.splits)

lemma for_range_inv:
  assumes "a \<le> b" and "I a s"
    and step: "\<And>k t. a \<le> k \<Longrightarrow> k < b \<Longrightarrow> I k t \<Longrightarrow> \<exists>t'. body k t = Inr t' \<and> I (Suc k) t'"
  shows "\<exists>t. for_loop [a..<b] body s = Inr t \<and> I b t"
  using assms(1) step
proof (induction b)
  case 0
  then show ?case using assms(2) by simp
next
  case (Suc b)
  show ?case
  proof (cases "a = Suc b")
    case True
    then show ?thesis using assms(2) by simp
  next
    case False
    then have ab: "a \<le> b" using Suc.prems(1) by simp
    have "\<exists>t. for_loop [a..<b] body s = Inr t \<and> I b t"
      using Suc.IH [OF ab] Suc.prems(2) by simp
    then obtain t where t: "for_loop [a..<b] body s = Inr t" "I b t" by blast
    obtain t' where t': "body b t = Inr t'" "I (Suc b) t'"
      using Suc.prems(2) [OF ab _ t(2)] by auto
    show ?thesis using ab t t' by (simp add: for_loop_append)
  qed
qed



section \<open>Binary64 rounding\<close>

lemma pow2_powr: "pow2 e = 2 powr (of_int e)"
proof (cases "0 \<le> e")
  case True
  then have "2 powr (of_int e) = (2::real) powr (real (nat e))" by simp
  also have "\<dots> = 2 ^ nat e" by (simp add: powr_realpow)
  finally show ?thesis using True by (simp add: pow2_def)
next
  case False
  then have "(2::real) powr (of_int e) = 2 powr (- real (nat (- e)))" by simp
  also have "\<dots> = inverse (2 powr (real (nat (- e))))" by (simp only: powr_minus)
  also have "\<dots> = inverse (2 ^ nat (- e))" by (simp add: powr_realpow)
  finally show ?thesis using False by (simp add: pow2_def)
qed

lemma pow2_pos [simp]: "0 < pow2 e"
  by (simp add: pow2_powr)

lemma pow2_add: "pow2 (a + b) = pow2 a * pow2 b"
  by (simp add: pow2_powr powr_add)

lemma pow2_nat: "0 \<le> e \<Longrightarrow> pow2 e = of_int (2 ^ nat e)"
  by (simp add: pow2_def)

lemma quantum_eval:
  assumes "pow2 e \<le> \<bar>x\<bar>" and "\<bar>x\<bar> < pow2 (e + 1)"
  shows "quantum x = max (e - 52) (- 1074)"
proof -
  have pos: "0 < \<bar>x\<bar>" using assms(1) pow2_pos [of e] by linarith
  have "\<lfloor>log 2 \<bar>x\<bar>\<rfloor> = e"
    using assms pos by (simp add: floor_log_eq_powr_iff pow2_powr)
  then show ?thesis by (simp add: quantum_def)
qed

lemma round_even_int [simp]: "round_even (of_int z) = z"
  by (simp add: round_even_def)

lemma pow2_neq0 [simp]: "pow2 e \<noteq> 0"
  using pow2_pos [of e] by linarith

lemma pow2_ge0 [simp]: "0 \<le> pow2 e"
  using pow2_pos [of e] by linarith

lemma pow2_less_iff: "pow2 a < pow2 b \<longleftrightarrow> a < b"
  by (simp add: pow2_powr)

lemma quantum_bounds:
  assumes "x \<noteq> 0"
  shows "pow2 (\<lfloor>log 2 \<bar>x\<bar>\<rfloor>) \<le> \<bar>x\<bar>" and "\<bar>x\<bar> < pow2 (\<lfloor>log 2 \<bar>x\<bar>\<rfloor> + 1)"
proof -
  have pos: "0 < \<bar>x\<bar>" using assms by simp
  have "\<lfloor>log 2 \<bar>x\<bar>\<rfloor> = \<lfloor>log 2 \<bar>x\<bar>\<rfloor>" ..
  then have "2 powr (of_int \<lfloor>log 2 \<bar>x\<bar>\<rfloor>) \<le> \<bar>x\<bar>
      \<and> \<bar>x\<bar> < 2 powr (of_int (\<lfloor>log 2 \<bar>x\<bar>\<rfloor> + 1))"
    using floor_log_eq_powr_iff [of "\<bar>x\<bar>" 2 "\<lfloor>log 2 \<bar>x\<bar>\<rfloor>"] pos by simp
  then show "pow2 (\<lfloor>log 2 \<bar>x\<bar>\<rfloor>) \<le> \<bar>x\<bar>" "\<bar>x\<bar> < pow2 (\<lfloor>log 2 \<bar>x\<bar>\<rfloor> + 1)"
    by (simp_all add: pow2_powr)
qed

lemma round64_exact:
  assumes m: "\<bar>m\<bar> < 2 ^ 53" and k: "- 1074 \<le> k"
    and fin: "\<bar>of_int m * pow2 k\<bar> < 2 ^ 1024"
  shows "round64 (of_int m * pow2 k) = Finite (of_int m * pow2 k)"
proof (cases "m = 0")
  case True
  then show ?thesis by (simp add: round64_def)
next
  case False
  let ?x = "of_int m * pow2 k :: real"
  let ?e = "\<lfloor>log 2 \<bar>?x\<bar>\<rfloor>"
  have x0: "?x \<noteq> 0" using False by simp
  have "\<bar>?x\<bar> = of_int \<bar>m\<bar> * pow2 k" by (simp add: abs_mult)
  also have "\<dots> < 2 ^ 53 * pow2 k"
  proof -
    have "(of_int \<bar>m\<bar> :: real) < of_int (2 ^ 53)" using m by (simp only: of_int_less_iff)
    then show ?thesis by simp
  qed
  also have "\<dots> = pow2 (53 + k)"
  proof -
    have "pow2 53 = 2 ^ 53" by (simp add: pow2_def)
    then show ?thesis by (simp only: pow2_add)
  qed
  finally have "\<bar>?x\<bar> < pow2 (53 + k)" .
  with quantum_bounds(1) [OF x0] have "pow2 ?e < pow2 (53 + k)" by linarith
  then have e: "?e - 52 \<le> k" by (simp add: pow2_less_iff)
  define q where "q = quantum ?x"
  have qk: "q \<le> k" using e k by (simp add: q_def quantum_def)
  have "pow2 k = pow2 (k - q) * pow2 q" by (simp add: pow2_add [symmetric])
  then have "?x / pow2 q = of_int m * pow2 (k - q)" by simp
  also have "\<dots> = of_int (m * 2 ^ nat (k - q))" using qk by (simp add: pow2_nat)
  finally have "round_even (?x / pow2 q) = m * 2 ^ nat (k - q)"
    by (simp only: round_even_int)
  then have "of_int (round_even (?x / pow2 q)) * pow2 q = of_int m * (pow2 (k - q) * pow2 q)"
    using qk by (simp add: pow2_nat)
  also have "\<dots> = ?x" by (simp add: pow2_add [symmetric])
  finally have y: "of_int (round_even (?x / pow2 (quantum ?x))) * pow2 (quantum ?x) = ?x"
    by (simp add: q_def)
  show ?thesis
    unfolding round64_def Let_def y using x0 fin by simp
qed

lemma round64_int:
  assumes "\<bar>z\<bar> < 2 ^ 53"
  shows "round64 (of_int z) = Finite (of_int z)"
proof -
  have "\<bar>of_int z :: real\<bar> < of_int (2 ^ 53)"
    using assms by (simp only: of_int_abs [symmetric] of_int_less_iff)
  also have "(of_int (2 ^ 53) :: real) < 2 ^ 1024" by simp
  finally have "\<bar>of_int z * pow2 0\<bar> < (2 ^ 1024 :: real)" by (simp add: pow2_def)
  from round64_exact [OF assms _ this] show ?thesis by (simp add: pow2_def)
qed

lemma round64_eval:
  assumes "pow2 e \<le> \<bar>x\<bar>" and "\<bar>x\<bar> < pow2 (e + 1)"
    and "q = max (e - 52) (- 1074)"
    and "round_even (x / pow2 q) = r"
    and "\<bar>of_int r * pow2 q\<bar> < 2 ^ 1024"
  shows "round64 x = Finite (of_int r * pow2 q)"
proof -
  have "0 < \<bar>x\<bar>" using assms(1) pow2_pos [of e] by linarith
  then have x0: "x \<noteq> 0" by simp
  have q: "quantum x = q" using quantum_eval [OF assms(1,2)] assms(3) by simp
  show ?thesis
    unfolding round64_def Let_def q assms(4) using x0 assms(5) by simp
qed

lemma of_count_exact: "\<bar>z\<bar> < 2 ^ 53 \<Longrightarrow> of_count z = Finite (of_int z)"
  by (simp add: of_count_def round64_int)

lemma fmul_int:
  assumes "\<bar>a * b\<bar> < 2 ^ 53"
  shows "fmul (Finite (of_int a)) (Finite (of_int b)) = Finite (of_int (a * b))"
  using round64_int [OF assms] by simp

lemma fadd_int:
  assumes "\<bar>a + b\<bar> < 2 ^ 53"
  shows "fadd (Finite (of_int a)) (Finite (of_int b)) = Finite (of_int (a + b))"
  using round64_int [OF assms] by simp

lemma fsub_int:
  assumes "\<bar>a - b\<bar> < 2 ^ 53"
  shows "fsub (Finite (of_int a)) (Finite (of_int b)) = Finite (of_int (a - b))"
  using round64_int [OF assms] by (simp add: fsub_def fneg_def)

lemma round64_frac:
  assumes m: "\<bar>m\<bar> < 2 ^ 53" and s: "s \<le> 1074"
  shows "round64 (of_int m / 2 ^ s) = Finite (of_int m / 2 ^ s)"
proof -
  have p: "pow2 (- int s) = inverse (2 ^ s)" by (simp add: pow2_def)
  have "\<bar>of_int m :: real\<bar> * 1 \<le> \<bar>of_int m\<bar> * 2 ^ s"
    by (intro mult_left_mono) simp_all
  then have "\<bar>of_int m / 2 ^ s :: real\<bar> \<le> \<bar>of_int m\<bar>"
    by (simp add: abs_divide divide_le_eq)
  also have "\<dots> < of_int (2 ^ 53)"
    using m by (simp only: of_int_abs [symmetric] of_int_less_iff)
  also have "(of_int (2 ^ 53) :: real) < 2 ^ 1024" by simp
  finally have fin: "\<bar>of_int m * pow2 (- int s)\<bar> < (2 ^ 1024 :: real)"
    by (simp add: p divide_inverse)
  have "- 1074 \<le> - int s" using s by simp
  from round64_exact [OF m this fin] show ?thesis by (simp add: p divide_inverse)
qed

lemma fmul_frac:
  assumes "\<bar>a * b\<bar> < 2 ^ 53" and "s \<le> 1074"
  shows "fmul (Finite (of_int a / 2 ^ s)) (Finite (of_int b)) = Finite (of_int (a * b) / 2 ^ s)"
  using round64_frac [OF assms] by simp

lemma fadd_frac:
  assumes "\<bar>a + b\<bar> < 2 ^ 53" and "s \<le> 1074"
  shows "fadd (Finite (of_int a / 2 ^ s)) (Finite (of_int b / 2 ^ s)) = Finite (of_int (a + b) / 2 ^ s)"
  using round64_frac [OF assms] by (simp add: add_divide_distrib)

lemma fsub_frac:
  assumes "\<bar>a - b\<bar> < 2 ^ 53" and "s \<le> 1074"
  shows "fsub (Finite (of_int a / 2 ^ s)) (Finite (of_int b / 2 ^ s)) = Finite (of_int (a - b) / 2 ^ s)"
  using round64_frac [OF assms] by (simp add: fsub_def fneg_def diff_divide_distrib)

lemma int_as_frac: "Finite (of_int v) = Finite (of_int (v * 2 ^ s) / 2 ^ s)"
  by simp

section \<open>The loops of the methods\<close>

lemma within_radius_sym: "within_radius p q = within_radius q p"
  by (simp add: within_radius_def norm_minus_commute)

lemma dij_within_radius:
  "(sqrt ((x_i - x_j)\<^sup>2 + (y_i - y_j)\<^sup>2) \<le> 1) = within_radius (x_i, y_i) (x_j, y_j)"
  by (simp add: within_radius_def cmod_def)


lemma edges_inv_init: "edges_inv g n 0 0 (replicate n (replicate n False))"
  by (simp add: edges_inv_def)

lemma edges_inv_next_row: "edges_inv g n i n e \<Longrightarrow> edges_inv g n (Suc i) (Suc (Suc i)) e"
  unfolding edges_inv_def
  apply (intro conjI allI impI)
    apply simp
   apply simp
  apply (auto simp: min_def max_def split: if_splits)
  done

lemma edges_inv_start_row: "edges_inv g n i 0 e \<Longrightarrow> edges_inv g n i (Suc i) e"
  unfolding edges_inv_def
  by (auto simp: min_def max_def split: if_splits)

lemma edges_inv_set:
  assumes inv: "edges_inv g n i j e" and ij: "i < j" "j < n"
    and w: "within_radius (g ! i) (g ! j)"
  shows "edges_inv g n i (Suc j) ((e[i := (e ! i)[j := True]])[j := ((e[i := (e ! i)[j := True]]) ! j)[i := True]])"
proof -
  let ?e1 = "e[i := (e ! i)[j := True]]"
  let ?e2 = "?e1[j := (?e1 ! j)[i := True]]"
  have len: "length e = n" and rows: "\<And>a. a < n \<Longrightarrow> length (e ! a) = n"
    using inv by (auto simp: edges_inv_def)
  have ent: "\<And>a b. a < n \<Longrightarrow> b < n \<Longrightarrow> e ! a ! b =
         (a \<noteq> b \<and> within_radius (g ! min a b) (g ! max a b) \<and>
          (min a b < i \<or> (min a b = i \<and> max a b < j)))"
    using inv by (auto simp: edges_inv_def)
  have i: "i < n" using ij by simp
  have e2: "\<And>a b. a < n \<Longrightarrow> b < n \<Longrightarrow>
       ?e2 ! a ! b = ((a = i \<and> b = j) \<or> (a = j \<and> b = i) \<or> e ! a ! b)"
    using len rows i ij by (auto simp: nth_list_update)
  have l2: "length ?e2 = n" using len by simp
  have r2: "\<And>a. a < n \<Longrightarrow> length (?e2 ! a) = n"
    using len rows i ij by (auto simp: nth_list_update)
  have "\<And>a b. a < n \<Longrightarrow> b < n \<Longrightarrow> ?e2 ! a ! b =
         (a \<noteq> b \<and> within_radius (g ! min a b) (g ! max a b) \<and>
          (min a b < i \<or> (min a b = i \<and> max a b < Suc j)))"
    unfolding e2 ent using ij w
    by (auto simp: min_def max_def less_Suc_eq split: if_splits)
  then show ?thesis
    unfolding edges_inv_def using l2 r2 by blast
qed

lemma edges_inv_skip:
  assumes inv: "edges_inv g n i j e" and ij: "i < j" "j < n"
    and w: "\<not> within_radius (g ! i) (g ! j)"
  shows "edges_inv g n i (Suc j) e"
  using assms unfolding edges_inv_def
  by (auto simp: min_def max_def less_Suc_eq split: if_splits)


lemma find_edges_inner:
  assumes inv: "edges_inv g n i (Suc i) e1" and i: "Suc i < n" and g: "n \<le> length g"
    and gi: "g ! i = (x_i, y_i)"
  shows "\<exists>e. for_loop [i + 1..<n] (\<lambda>j edges2.
            bind_result (py_get g (int j)) (\<lambda>(x_j, y_j).
              let dij = sqrt ((x_i - x_j)\<^sup>2 + (y_i - y_j)\<^sup>2) in
              if dij \<le> 1 then
                bind_result (np_set2 edges2 (int i) (int j) True) (\<lambda>edges3.
                  np_set2 edges3 (int j) (int i) True)
              else Inr edges2)) e1 = Inr e \<and> edges_inv g n i n e"
proof (rule for_range_inv [where I = "\<lambda>j e. edges_inv g n i j e"])
  show "i + 1 \<le> n" using i by simp
  show "edges_inv g n i (i + 1) e1" using inv by simp
next
  fix j e
  assume j: "i + 1 \<le> j" "j < n" and e: "edges_inv g n i j e"
  obtain x_j y_j where gj: "g ! j = (x_j, y_j)" by (cases "g ! j")
  have len: "length e = n" and rows: "\<And>a. a < n \<Longrightarrow> length (e ! a) = n"
    using e by (auto simp: edges_inv_def)
  have ij: "i < j" "i < n" using j by simp_all
  have get: "py_get g (int j) = Inr (x_j, y_j)"
    using py_get_nat [of j g] j g gj by simp
  show "\<exists>t'. bind_result (py_get g (int j)) (\<lambda>(x_j, y_j).
              let dij = sqrt ((x_i - x_j)\<^sup>2 + (y_i - y_j)\<^sup>2) in
              if dij \<le> 1 then
                bind_result (np_set2 e (int i) (int j) True) (\<lambda>edges3.
                  np_set2 edges3 (int j) (int i) True)
              else Inr e) = Inr t' \<and> edges_inv g n i (Suc j) t'"
  proof (cases "within_radius (g ! i) (g ! j)")
    case True
    have s1: "np_set2 e (int i) (int j) True = Inr (e[i := (e ! i)[j := True]])"
      using len rows ij j by (simp add: np_set2_nat)
    have s2: "np_set2 (e[i := (e ! i)[j := True]]) (int j) (int i) True
        = Inr ((e[i := (e ! i)[j := True]])[j := ((e[i := (e ! i)[j := True]]) ! j)[i := True]])"
      using len rows ij j by (simp add: np_set2_nat nth_list_update)
    have d: "(x_i - x_j)\<^sup>2 + (y_i - y_j)\<^sup>2 \<le> 1"
      using True gi gj dij_within_radius [of x_i x_j y_i y_j] by simp
    show ?thesis
      using edges_inv_set [OF e ij(1) j(2) True]
      by (simp add: get d s1 s2)
  next
    case False
    have d: "\<not> (x_i - x_j)\<^sup>2 + (y_i - y_j)\<^sup>2 \<le> 1"
      using False gi gj dij_within_radius [of x_i x_j y_i y_j] by simp
    show ?thesis
      using edges_inv_skip [OF e ij(1) j(2) False]
      by (simp add: get d)
  qed
qed

lemma find_edges_inv:
  assumes "num_vertices self \<le> 1 \<or> num_vertices self \<le> length (g_graph gl)"
  shows "\<exists>e. find_edges gl self = Inr e \<and>
     edges_inv (g_graph gl) (num_vertices self) (num_vertices self - 1) (num_vertices self) e"
proof -
  let ?n = "num_vertices self" and ?g = "g_graph gl"
  have "\<exists>e. for_loop [0..<?n - 1] (\<lambda>i edges1.
        bind_result (py_get ?g (int i)) (\<lambda>(x_i, y_i).
          for_loop [i + 1..<?n] (\<lambda>j edges2.
            bind_result (py_get ?g (int j)) (\<lambda>(x_j, y_j).
              let dij = sqrt ((x_i - x_j)\<^sup>2 + (y_i - y_j)\<^sup>2) in
              if dij \<le> 1 then
                bind_result (np_set2 edges2 (int i) (int j) True) (\<lambda>edges3.
                  np_set2 edges3 (int j) (int i) True)
              else Inr edges2))
            edges1)) (replicate ?n (replicate ?n False)) = Inr e
      \<and> edges_inv ?g ?n (?n - 1) (Suc (?n - 1)) e"
  proof (rule for_range_inv [where I = "\<lambda>i e. edges_inv ?g ?n i (Suc i) e"])
    show "0 \<le> ?n - 1" by simp
    show "edges_inv ?g ?n 0 (Suc 0) (replicate ?n (replicate ?n False))"
      using edges_inv_start_row [OF edges_inv_init] .
  next
    fix i e
    assume i: "0 \<le> i" "i < ?n - 1" and e: "edges_inv ?g ?n i (Suc i) e"
    have n: "Suc i < ?n" using i by simp
    then have g: "?n \<le> length ?g" using assms by simp
    obtain x_i y_i where gi: "?g ! i = (x_i, y_i)" by (cases "?g ! i")
    have get: "py_get ?g (int i) = Inr (x_i, y_i)"
      using py_get_nat [of i ?g] n g gi by simp
    obtain e' where e': "for_loop [i + 1..<?n] (\<lambda>j edges2.
            bind_result (py_get ?g (int j)) (\<lambda>(x_j, y_j).
              let dij = sqrt ((x_i - x_j)\<^sup>2 + (y_i - y_j)\<^sup>2) in
              if dij \<le> 1 then
                bind_result (np_set2 edges2 (int i) (int j) True) (\<lambda>edges3.
                  np_set2 edges3 (int j) (int i) True)
              else Inr edges2)) e = Inr e'" "edges_inv ?g ?n i ?n e'"
      using find_edges_inner [OF e n g gi] by blast
    show "\<exists>t'. bind_result (py_get ?g (int i)) (\<lambda>(x_i, y_i).
          for_loop [i + 1..<?n] (\<lambda>j edges2.
            bind_result (py_get ?g (int j)) (\<lambda>(x_j, y_j).
              let dij = sqrt ((x_i - x_j)\<^sup>2 + (y_i - y_j)\<^sup>2) in
              if dij \<le> 1 then
                bind_result (np_set2 edges2 (int i) (int j) True) (\<lambda>edges3.
                  np_set2 edges3 (int j) (int i) True)
              else Inr edges2))
            e) = Inr t' \<and> edges_inv ?g ?n (Suc i) (Suc (Suc i)) t'"
      using e' edges_inv_next_row [OF e'(2)] by (simp add: get)
  qed
  then obtain e where e: "find_edges gl self = Inr e"
      "edges_inv ?g ?n (?n - 1) (Suc (?n - 1)) e"
    unfolding find_edges_def Let_def by blast
  have "edges_inv ?g ?n (?n - 1) ?n e"
    using e(2) unfolding edges_inv_def by (auto simp: min_def max_def split: if_splits)
  with e(1) show ?thesis by blast
qed





lemma energy_inner:
  assumes wf: "well_formed self" and i: "i < num_vertices self"
  shows "for_loop [Suc i..<num_vertices self] (\<lambda>j interaction_term'.
               bind_result (np_get2 (edges self) (int i) (int j)) (\<lambda>e.
                 if e then
                   bind_result (py_get (occupations self) (int i)) (\<lambda>oi.
                   bind_result (py_get (occupations self) (int j)) (\<lambda>oj.
                     Inr (interaction_term' + (if oi \<and> oj then 1 else 0))))
                 else Inr interaction_term')) it0
        = Inr (it0 + (\<Sum>b = Suc i..<num_vertices self. pair_term (edges self) (occupations self) i b))"
proof -
  let ?n = "num_vertices self" and ?e = "edges self" and ?o = "occupations self"
  let ?body = "\<lambda>j interaction_term'.
               bind_result (np_get2 ?e (int i) (int j)) (\<lambda>e.
                 if e then
                   bind_result (py_get ?o (int i)) (\<lambda>oi.
                   bind_result (py_get ?o (int j)) (\<lambda>oj.
                     Inr (interaction_term' + (if oi \<and> oj then 1 else 0))))
                 else Inr interaction_term')"
  have len: "length ?o = ?n" "length ?e = ?n" "\<And>a. a < ?n \<Longrightarrow> length (?e ! a) = ?n"
    using wf by (auto simp: well_formed_def)
  have "\<exists>t. for_loop [i + 1..<?n] ?body it0 = Inr t \<and>
          t = it0 + (\<Sum>b = Suc i..<?n. pair_term ?e ?o i b)"
  proof (rule for_range_inv [where I = "\<lambda>j t. t = it0 + (\<Sum>b = Suc i..<j. pair_term ?e ?o i b)"])
    show "i + 1 \<le> ?n" using i by simp
    show "it0 = it0 + (\<Sum>b = Suc i..<i + 1. pair_term ?e ?o i b)" by simp
  next
    fix j t
    assume j: "i + 1 \<le> j" "j < ?n" and t: "t = it0 + (\<Sum>b = Suc i..<j. pair_term ?e ?o i b)"
    have g2: "np_get2 ?e (int i) (int j) = Inr (?e ! i ! j)"
      using len i j by (simp add: np_get2_nat)
    have gi: "py_get ?o (int i) = Inr (?o ! i)" using len i by (simp add: py_get_nat)
    have gj: "py_get ?o (int j) = Inr (?o ! j)" using len j by (simp add: py_get_nat)
    have "?body j t = Inr (t + pair_term ?e ?o i j)"
      by (simp add: g2 gi gj pair_term_def)
    moreover have "t + pair_term ?e ?o i j = it0 + (\<Sum>b = Suc i..<Suc j. pair_term ?e ?o i b)"
      using t j by simp
    ultimately show "\<exists>t'. ?body j t = Inr t' \<and>
        t' = it0 + (\<Sum>b = Suc i..<Suc j. pair_term ?e ?o i b)"
      by simp
  qed
  then show ?thesis by simp
qed


lemma energy_outer:
  assumes wf: "well_formed self"
  shows "for_loop [0..<num_vertices self - 1] (\<lambda>i (interaction_term, vertex_term).
          bind_result
            (for_loop [i + 1..<num_vertices self] (\<lambda>j interaction_term'.
               bind_result (np_get2 (edges self) (int i) (int j)) (\<lambda>e.
                 if e then
                   bind_result (py_get (occupations self) (int i)) (\<lambda>oi.
                   bind_result (py_get (occupations self) (int j)) (\<lambda>oj.
                     Inr (interaction_term' + (if oi \<and> oj then 1 else 0))))
                 else Inr interaction_term'))
               interaction_term)
            (\<lambda>interaction_term'.
               bind_result (py_get (occupations self) (int i)) (\<lambda>oi.
                 Inr (interaction_term', vertex_term + (if oi then 1 else 0)))))
          (0 :: int, 0 :: int)
     = Inr (\<Sum>a<num_vertices self - 1. \<Sum>b = Suc a..<num_vertices self.
                    pair_term (edges self) (occupations self) a b,
            \<Sum>a<num_vertices self - 1. site_term (occupations self) a)"
proof -
  let ?n = "num_vertices self" and ?e = "edges self" and ?o = "occupations self"
  let ?body = "\<lambda>i (interaction_term, vertex_term).
          bind_result
            (for_loop [i + 1..<?n] (\<lambda>j interaction_term'.
               bind_result (np_get2 ?e (int i) (int j)) (\<lambda>e.
                 if e then
                   bind_result (py_get ?o (int i)) (\<lambda>oi.
                   bind_result (py_get ?o (int j)) (\<lambda>oj.
                     Inr (interaction_term' + (if oi \<and> oj then 1 else 0))))
                 else Inr interaction_term'))
               interaction_term)
            (\<lambda>interaction_term'.
               bind_result (py_get ?o (int i)) (\<lambda>oi.
                 Inr (interaction_term', vertex_term + (if oi then 1 else 0))))"
  let ?I = "\<lambda>i t. t = (\<Sum>a<i. \<Sum>b = Suc a..<?n. pair_term ?e ?o a b, \<Sum>a<i. site_term ?o a)"
  have len: "length ?o = ?n" using wf by (simp add: well_formed_def)
  have "\<exists>t. for_loop [0..<?n - 1] ?body (0, 0) = Inr t \<and> ?I (?n - 1) t"
  proof (rule for_range_inv [where I = ?I])
    show "0 \<le> ?n - 1" by simp
    show "?I 0 (0, 0)" by simp
  next
    fix i t
    assume i: "0 \<le> i" "i < ?n - 1" and t: "?I i t"
    have i': "i < ?n" using i by simp
    have gi: "py_get ?o (int i) = Inr (?o ! i)" using len i' by (simp add: py_get_nat)
    have "?body i t = Inr (fst t + (\<Sum>b = Suc i..<?n. pair_term ?e ?o i b), snd t + site_term ?o i)"
      by (cases t) (simp add: energy_inner [OF wf i'] gi site_term_def)
    then show "\<exists>t'. ?body i t = Inr t' \<and> ?I (Suc i) t'"
      using t by simp
  qed
  then show ?thesis by simp
qed

lemma energy_closed:
  assumes wf: "well_formed self" and n: "1 \<le> num_vertices self"
  shows "energy gl self =
     Inr (fsub (fmul (g_u gl) (of_count (pair_count self))) (of_count (site_count self)))"
proof -
  let ?n = "num_vertices self" and ?o = "occupations self"
  have len: "length ?o = ?n" using wf by (simp add: well_formed_def)
  have nn: "?n = Suc (?n - 1)" using n by simp
  have idx: "int ?n - 1 = int (?n - 1)" using n by simp
  have "py_get ?o (int (?n - 1)) = Inr (?o ! (?n - 1))"
    by (rule py_get_nat) (use len n in simp)
  then have gl: "py_get ?o (int ?n - 1) = Inr (?o ! (?n - 1))"
    by (simp only: idx)
  have s1: "pair_count self
      = (\<Sum>a<?n - 1. \<Sum>b = Suc a..<?n. pair_term (edges self) ?o a b)"
    unfolding pair_count_def by (subst (1) nn, subst sum.lessThan_Suc) (use n in simp)
  have s2: "site_count self = (\<Sum>a<?n - 1. site_term ?o a) + site_term ?o (?n - 1)"
    unfolding site_count_def by (subst (1) nn, subst sum.lessThan_Suc) simp
  show ?thesis
    unfolding energy_def energy_outer [OF wf] s1 s2
    by (simp add: gl site_term_def)
qed

lemma energy_empty:
  assumes "num_vertices self = 0" and "occupations self = []"
  shows "energy gl self = Inl IndexError"
  using assms by (simp add: energy_def py_get_def norm_index_def)



lemma split_at:
  fixes h :: "nat \<Rightarrow> int"
  assumes "i < n"
  shows "(\<Sum>b<n. h b) = (\<Sum>b<i. h b) + h i + (\<Sum>b = Suc i..<n. h b)"
proof -
  have "{..<n} = {..<i} \<union> ({i} \<union> {Suc i..<n})" using assms by auto
  moreover have "{..<i} \<inter> ({i} \<union> {Suc i..<n}) = {}" by auto
  ultimately have "(\<Sum>b<n. h b) = (\<Sum>b<i. h b) + (\<Sum>b\<in>{i} \<union> {Suc i..<n}. h b)"
    by (simp add: sum.union_disjoint)
  also have "(\<Sum>b\<in>{i} \<union> {Suc i..<n}. h b) = h i + (\<Sum>b = Suc i..<n. h b)"
    by (subst sum.union_disjoint) auto
  finally show ?thesis by simp
qed

lemma row_or_column_sum:
  fixes h :: "nat \<Rightarrow> int"
  assumes i: "i < n" and hi: "h i = 0"
  shows "(\<Sum>a<n. \<Sum>b = Suc a..<n. (if a = i then h b else if b = i then h a else 0))
         = (\<Sum>b<n. h b)"
proof -
  let ?F = "\<lambda>a. \<Sum>b = Suc a..<n. (if a = i then h b else if b = i then h a else 0)"
  have inner: "?F a = (if a = i then (\<Sum>b = Suc i..<n. h b) else if a < i then h a else 0)" for a
  proof (cases "a = i")
    case True
    then show ?thesis by simp
  next
    case False
    have "?F a = (\<Sum>b = Suc a..<n. (if b = i then h a else 0))"
      using False by simp
    also have "\<dots> = (if i \<in> {Suc a..<n} then h a else 0)"
      by (simp add:)
    also have "\<dots> = (if a < i then h a else 0)"
      using i by auto
    finally show ?thesis using False by simp
  qed
  have "(\<Sum>a<n. ?F a) = (\<Sum>a<i. ?F a) + ?F i + (\<Sum>a = Suc i..<n. ?F a)"
    by (rule split_at [OF i])
  also have "(\<Sum>a<i. ?F a) = (\<Sum>a<i. h a)"
    by (rule sum.cong) (use i in \<open>simp_all add: inner\<close>)
  also have "(\<Sum>a = Suc i..<n. ?F a) = 0"
    by (rule sum.neutral) (use i in \<open>simp add: inner\<close>)
  also have "?F i = (\<Sum>b = Suc i..<n. h b)"
    by (simp add: inner)
  finally show ?thesis
    using split_at [OF i, of h] hi by simp
qed


lemma pair_term_toggle:
  assumes si: "symmetric_irreflexive n e" and len: "length occ = n"
    and i: "i < n" and ab: "a < b" "b < n"
  shows "pair_term e (occ[i := \<not> occ ! i]) a b =
     pair_term e occ a b + (if occ ! i then - 1 else 1) *
       (if a = i then nbr_term e occ i b else if b = i then nbr_term e occ i a else 0)"
proof -
  have sym: "e ! a ! i = e ! i ! a" using si i ab by (simp add: symmetric_irreflexive_def)
  show ?thesis
    using len i ab sym by (auto simp: pair_term_def nbr_term_def nth_list_update)
qed

lemma pair_sum_toggle:
  assumes si: "symmetric_irreflexive n e" and len: "length occ = n" and i: "i < n"
  shows "(\<Sum>a<n. \<Sum>b = Suc a..<n. pair_term e (occ[i := \<not> occ ! i]) a b) =
     (\<Sum>a<n. \<Sum>b = Suc a..<n. pair_term e occ a b)
       + (if occ ! i then - 1 else 1) * (\<Sum>b<n. nbr_term e occ i b)"
proof -
  let ?d = "if occ ! i then - 1 else 1 :: int"
  let ?h = "nbr_term e occ i"
  have hi: "?h i = 0" using si i by (simp add: nbr_term_def symmetric_irreflexive_def)
  have "(\<Sum>a<n. \<Sum>b = Suc a..<n. pair_term e (occ[i := \<not> occ ! i]) a b)
      = (\<Sum>a<n. \<Sum>b = Suc a..<n. pair_term e occ a b
            + ?d * (if a = i then ?h b else if b = i then ?h a else 0))"
    by (intro sum.cong refl) (simp add: pair_term_toggle [OF si len i])
  also have "\<dots> = (\<Sum>a<n. \<Sum>b = Suc a..<n. pair_term e occ a b)
      + ?d * (\<Sum>a<n. \<Sum>b = Suc a..<n. (if a = i then ?h b else if b = i then ?h a else 0))"
    by (simp only: sum.distrib sum_distrib_left)
  finally show ?thesis
    by (simp only: row_or_column_sum [of i n ?h, OF i hi])
qed

lemma site_sum_toggle:
  assumes len: "length occ = n" and i: "i < n"
  shows "(\<Sum>a<n. site_term (occ[i := \<not> occ ! i]) a) =
     (\<Sum>a<n. site_term occ a) + (if occ ! i then - 1 else 1)"
proof -
  have "(\<Sum>a<n. site_term (occ[i := \<not> occ ! i]) a)
      = (\<Sum>a<n. site_term occ a + (if a = i then (if occ ! i then - 1 else 1) else 0))"
    by (intro sum.cong refl) (use len in \<open>auto simp: site_term_def nth_list_update\<close>)
  also have "\<dots> = (\<Sum>a<n. site_term occ a) + (if occ ! i then - 1 else 1)"
    using i by (simp add: sum.distrib)
  finally show ?thesis .
qed


lemma np_take_in_range:
  "\<forall>k\<in>set ks. k < length a \<Longrightarrow> np_take a ks = Inr (map (\<lambda>k. a ! k) ks)"
  by (induction ks) (simp_all add: py_get_nat)

lemma count_filter_upt:
  "int (length (filter P [0..<n])) = (\<Sum>b<n. if P b then 1 else 0)"
  by (induction n) simp_all

lemma energy_diff_closed:
  assumes wf: "well_formed self" and i: "i < num_vertices self"
  shows "energy_diff gl self (int i) =
     Inr (if occupations self ! i
          then fadd (fmul (fneg (g_u gl)) (of_count (nbr_count self i))) (Finite 1)
          else fadd (fmul (g_u gl) (of_count (nbr_count self i))) (Finite (- 1)))"
proof -
  let ?n = "num_vertices self" and ?e = "edges self" and ?o = "occupations self"
  have len: "length ?o = ?n" "length ?e = ?n" "length (?e ! i) = ?n"
    using wf i by (auto simp: well_formed_def)
  have row: "py_get ?e (int i) = Inr (?e ! i)" using len i by (simp add: py_get_nat)
  have oi: "py_get ?o (int i) = Inr (?o ! i)" using len i by (simp add: py_get_nat)
  have take: "np_take ?o (filter (\<lambda>j. ?e ! i ! j) [0..<?n])
      = Inr (map (\<lambda>k. ?o ! k) (filter (\<lambda>j. ?e ! i ! j) [0..<?n]))"
    by (rule np_take_in_range) (simp add: len)
  have "int (length (filter (\<lambda>b. b) (map (\<lambda>k. ?o ! k) (filter (\<lambda>j. ?e ! i ! j) [0..<?n]))))
      = int (length (filter (\<lambda>b. ?e ! i ! b \<and> ?o ! b) [0..<?n]))"
    by (simp add: filter_map o_def conj_commute)
  also have "\<dots> = nbr_count self i"
    unfolding nbr_term_def nbr_count_def by (rule count_filter_upt)
  finally have cnt: "int (length (filter (\<lambda>b. b) (map (\<lambda>k. ?o ! k) (filter (\<lambda>j. ?e ! i ! j) [0..<?n]))))
      = nbr_count self i" .
  show ?thesis
    unfolding energy_diff_def Let_def
    by (simp only: row bind_result_Inr len take cnt oi) simp
qed

lemma pair_count_toggle:
  assumes wf: "well_formed self" and si: "symmetric_irreflexive (num_vertices self) (edges self)"
    and i: "i < num_vertices self"
  shows "pair_count (self\<lparr>occupations := (occupations self)[i := \<not> occupations self ! i]\<rparr>)
     = pair_count self + (if occupations self ! i then - 1 else 1) * nbr_count self i"
proof -
  have len: "length (occupations self) = num_vertices self"
    using wf by (simp add: well_formed_def)
  show ?thesis
    unfolding pair_count_def nbr_count_def
    by (simp add: pair_sum_toggle [OF si len i])
qed

lemma site_count_toggle:
  assumes wf: "well_formed self" and i: "i < num_vertices self"
  shows "site_count (self\<lparr>occupations := (occupations self)[i := \<not> occupations self ! i]\<rparr>)
     = site_count self + (if occupations self ! i then - 1 else 1)"
proof -
  have len: "length (occupations self) = num_vertices self"
    using wf by (simp add: well_formed_def)
  show ?thesis
    unfolding site_count_def by (simp add: site_sum_toggle [OF len i])
qed

lemma count_bounds:
  shows "0 \<le> pair_count self" and "pair_count self \<le> int (num_vertices self * num_vertices self)"
    and "0 \<le> site_count self" and "site_count self \<le> int (num_vertices self)"
    and "0 \<le> nbr_count self i" and "nbr_count self i \<le> int (num_vertices self)"
proof -
  let ?n = "num_vertices self"
  show "0 \<le> pair_count self"
    unfolding pair_count_def by (intro sum_nonneg) (simp add: pair_term_def)
  show "0 \<le> site_count self"
    unfolding site_count_def by (intro sum_nonneg) (simp add: site_term_def)
  show "0 \<le> nbr_count self i"
    unfolding nbr_count_def by (intro sum_nonneg) (simp add: nbr_term_def)
  have "site_count self \<le> (\<Sum>a<?n. 1)"
    unfolding site_count_def by (intro sum_mono) (simp add: site_term_def)
  then show "site_count self \<le> int ?n" by simp
  have "nbr_count self i \<le> (\<Sum>a<?n. 1)"
    unfolding nbr_count_def by (intro sum_mono) (simp add: nbr_term_def)
  then show "nbr_count self i \<le> int ?n" by simp
  have inner: "(\<Sum>b = Suc a..<?n. pair_term (edges self) (occupations self) a b) \<le> int ?n" for a
  proof -
    have "(\<Sum>b = Suc a..<?n. pair_term (edges self) (occupations self) a b)
        \<le> (\<Sum>b = Suc a..<?n. 1)"
      by (intro sum_mono) (simp add: pair_term_def)
    also have "\<dots> \<le> int ?n" by simp
    finally show ?thesis .
  qed
  have "pair_count self \<le> (\<Sum>a<?n. int ?n)"
    unfolding pair_count_def by (intro sum_mono inner)
  then show "pair_count self \<le> int (?n * ?n)" by simp
qed

lemma well_formed_occupations:
  "well_formed self \<Longrightarrow> length occ = num_vertices self \<Longrightarrow> well_formed (self\<lparr>occupations := occ\<rparr>)"
  by (simp add: well_formed_def)

lemma edges_inv_final:
  assumes "edges_inv g n (n - 1) n e"
  shows "length e = n" and "\<forall>a<n. length (e ! a) = n"
    and "symmetric_irreflexive n e"
    and "\<forall>a<n. \<forall>b<n. e ! a ! b = (a \<noteq> b \<and> within_radius (g ! a) (g ! b))"
proof -
  have ent: "\<And>a b. a < n \<Longrightarrow> b < n \<Longrightarrow>
      e ! a ! b = (a \<noteq> b \<and> within_radius (g ! min a b) (g ! max a b))"
    using assms unfolding edges_inv_def by (auto simp: min_def max_def)
  show "length e = n" "\<forall>a<n. length (e ! a) = n"
    using assms by (auto simp: edges_inv_def)
  show "symmetric_irreflexive n e"
    unfolding symmetric_irreflexive_def using ent by (auto simp: min.commute max.commute)
  show "\<forall>a<n. \<forall>b<n. e ! a ! b = (a \<noteq> b \<and> within_radius (g ! a) (g ! b))"
    using ent within_radius_sym by (auto simp: min_def max_def)
qed

lemma for_loop_raises:
  assumes "k \<in> set xs" and "\<And>t. body k t = Inl IndexError"
  shows "for_loop xs body s = Inl IndexError"
  using assms(1)
proof (induction xs arbitrary: s)
  case Nil
  then show ?case by simp
next
  case (Cons x xs)
  show ?case
  proof (cases "body x s")
    case (Inl err)
    then show ?thesis by (cases err) simp
  next
    case (Inr t)
    show ?thesis
    proof (cases "k = x")
      case True
      then show ?thesis using assms(2) [of s] Inr by simp
    next
      case False
      then show ?thesis using Cons Inr by simp
    qed
  qed
qed

lemma find_edges_raises:
  assumes n: "1 < num_vertices self" and g: "length (g_graph gl) < num_vertices self"
  shows "find_edges gl self = Inl IndexError"
proof -
  let ?n = "num_vertices self" and ?g = "g_graph gl"
  let ?m = "length ?g"
  show ?thesis
  proof (cases "?m < ?n - 1")
    case True
    show ?thesis
      unfolding find_edges_def Let_def
      by (rule for_loop_raises [where k = ?m]) (use True in \<open>simp_all add: py_get_out\<close>)
  next
    case False
    then have m: "?m = ?n - 1" "0 < ?m" using n g by linarith+
    have g0: "py_get ?g (int 0) = Inr (?g ! 0)"
      by (rule py_get_nat) (use m in simp)
    show ?thesis
      unfolding find_edges_def Let_def
    proof (rule for_loop_raises [where k = 0])
      show "0 \<in> set [0..<?n - 1]" using n by simp
    next
      fix t
      obtain x_0 y_0 where p: "?g ! 0 = (x_0, y_0)" by (cases "?g ! 0")
      have "for_loop [0 + 1..<?n] (\<lambda>j edges2.
            bind_result (py_get ?g (int j)) (\<lambda>(x_j, y_j).
              if sqrt ((x_0 - x_j)\<^sup>2 + (y_0 - y_j)\<^sup>2) \<le> 1 then
                bind_result (np_set2 edges2 (int 0) (int j) True) (\<lambda>edges3.
                  np_set2 edges3 (int j) (int 0) True)
              else Inr edges2)) t = Inl IndexError"
      proof (rule for_loop_raises [where k = ?m])
        show "?m \<in> set [0 + 1..<?n]" using m n g by simp
      next
        fix t'
        have "py_get ?g (int ?m) = Inl IndexError" by (rule py_get_out) simp
        then show "bind_result (py_get ?g (int ?m)) (\<lambda>(x_j, y_j).
              if sqrt ((x_0 - x_j)\<^sup>2 + (y_0 - y_j)\<^sup>2) \<le> 1 then
                bind_result (np_set2 t' (int 0) (int ?m) True) (\<lambda>edges3.
                  np_set2 edges3 (int ?m) (int 0) True)
              else Inr t') = Inl IndexError"
          by (simp only: bind_result_Inl)
      qed
      then show "bind_result (py_get ?g (int 0)) (\<lambda>(x_i, y_i).
          for_loop [0 + 1..<?n] (\<lambda>j edges2.
            bind_result (py_get ?g (int j)) (\<lambda>(x_j, y_j).
              if sqrt ((x_i - x_j)\<^sup>2 + (y_i - y_j)\<^sup>2) \<le> 1 then
                bind_result (np_set2 edges2 (int 0) (int j) True) (\<lambda>edges3.
                  np_set2 edges3 (int j) (int 0) True)
              else Inr edges2))
            t) = Inl IndexError"
        by (simp only: g0 bind_result_Inr p prod.case)
    qed
  qed
qed

lemma UDMIS_init_result:
  assumes "UDMIS_init gl rand u0 pts = Inr self"
  shows "well_formed self" and "symmetric_irreflexive (num_vertices self) (edges self)"
    and "num_vertices self = length pts" and "graph self = pts" and "u self = u0"
    and "length pts \<le> 1 \<or> length pts \<le> length (g_graph gl)"
proof -
  let ?s0 = "\<lparr>u = u0, graph = pts, num_vertices = length pts,
              occupations = map (\<lambda>k. rand k < 1 / 2) [0..<length pts], edges = []\<rparr>"
  obtain e where e: "find_edges gl ?s0 = Inr e" and self: "self = ?s0\<lparr>edges := e\<rparr>"
    using assms unfolding UDMIS_init_def Let_def
    by (cases "find_edges gl ?s0") auto
  show ok: "length pts \<le> 1 \<or> length pts \<le> length (g_graph gl)"
  proof (rule ccontr)
    assume "\<not> ?thesis"
    then have "1 < num_vertices ?s0" "length (g_graph gl) < num_vertices ?s0" by simp_all
    from find_edges_raises [OF this] e show False by simp
  qed
  then have "num_vertices ?s0 \<le> 1 \<or> num_vertices ?s0 \<le> length (g_graph gl)" by simp
  from find_edges_inv [OF this] e
  have inv: "edges_inv (g_graph gl) (length pts) (length pts - 1) (length pts) e" by simp
  show "well_formed self"
    using edges_inv_final(1,2) [OF inv] by (simp add: self well_formed_def)
  show "symmetric_irreflexive (num_vertices self) (edges self)"
    using edges_inv_final(3) [OF inv] by (simp add: self)
  show "num_vertices self = length pts" "graph self = pts" "u self = u0"
    by (simp_all add: self)
qed


lemma count_if_card:
  "finite S \<Longrightarrow> (\<Sum>b\<in>S. if P b then 1 else 0 :: int) = int (card {b \<in> S. P b})"
  by (simp add: sum.If_cases Int_def)

lemma pair_sum_card:
  "(\<Sum>a<n. \<Sum>b = Suc a..<n. pair_term e occ a b)
     = int (card {(a, b). a < b \<and> b < n \<and> e ! a ! b \<and> occ ! a \<and> occ ! b})"
proof -
  let ?B = "\<lambda>a. {b \<in> {Suc a..<n}. e ! a ! b \<and> occ ! a \<and> occ ! b}"
  have "{(a, b). a < b \<and> b < n \<and> e ! a ! b \<and> occ ! a \<and> occ ! b} = (SIGMA a:{..<n}. ?B a)"
    by auto
  moreover have "card (SIGMA a:{..<n}. ?B a) = (\<Sum>a<n. card (?B a))"
    by (rule card_SigmaI) simp_all
  moreover have "(\<Sum>b = Suc a..<n. pair_term e occ a b) = int (card (?B a))" for a
    unfolding pair_term_def by (rule count_if_card) simp
  ultimately show ?thesis by simp
qed

lemma site_sum_card:
  "(\<Sum>a<n. site_term occ a) = int (card {a. a < n \<and> occ ! a})"
proof -
  have "(\<Sum>a<n. site_term occ a) = int (card {a \<in> {..<n}. occ ! a})"
    unfolding site_term_def by (rule count_if_card) simp
  then show ?thesis by simp
qed

section \<open>Facts about the methods\<close>

lemma find_edges_returns_iff:
  "(\<exists>e. find_edges gl self = Inr e) \<longleftrightarrow>
     (num_vertices self \<le> 1 \<or> num_vertices self \<le> length (g_graph gl))"
proof
  assume "\<exists>e. find_edges gl self = Inr e"
  then obtain e where e: "find_edges gl self = Inr e" ..
  show "num_vertices self \<le> 1 \<or> num_vertices self \<le> length (g_graph gl)"
  proof (rule ccontr)
    assume "\<not> ?thesis"
    then have "1 < num_vertices self" "length (g_graph gl) < num_vertices self" by simp_all
    from find_edges_raises [OF this] e show False by simp
  qed
next
  assume "num_vertices self \<le> 1 \<or> num_vertices self \<le> length (g_graph gl)"
  from find_edges_inv [OF this] show "\<exists>e. find_edges gl self = Inr e" by blast
qed

lemma UDMIS_init_edges:
  assumes init: "UDMIS_init gl rand u0 pts = Inr self" and a: "a < length pts" and b: "b < length pts"
  shows "edges self ! a ! b = (a \<noteq> b \<and> within_radius (g_graph gl ! a) (g_graph gl ! b))"
proof -
  let ?s0 = "\<lparr>u = u0, graph = pts, num_vertices = length pts,
              occupations = map (\<lambda>k. rand k < 1 / 2) [0..<length pts], edges = []\<rparr>"
  have fe: "find_edges gl ?s0 = Inr (edges self)"
    using init unfolding UDMIS_init_def Let_def
    by (cases "find_edges gl ?s0") auto
  have "num_vertices ?s0 \<le> 1 \<or> num_vertices ?s0 \<le> length (g_graph gl)"
    using UDMIS_init_result(6) [OF init] by simp
  from find_edges_inv [OF this] fe
  have "edges_inv (g_graph gl) (length pts) (length pts - 1) (length pts) (edges self)" by simp
  from edges_inv_final(4) [OF this] a b show ?thesis by blast
qed

lemma find_edges_cong:
  "num_vertices s = num_vertices s' \<Longrightarrow> find_edges gl s = find_edges gl s'"
  by (simp add: find_edges_def)

lemma energy_cong:
  assumes "g_u gl = g_u gl'" "num_vertices s = num_vertices s'"
    "edges s = edges s'" "occupations s = occupations s'"
  shows "energy gl s = energy gl' s'" and "energy_diff gl s i = energy_diff gl' s' i"
  unfolding energy_def energy_diff_def assms by (rule refl)+

lemma UDMIS_init_u:
  assumes "UDMIS_init gl0 rand u1 pts = Inr s1"
  shows "UDMIS_init gl0 rand u2 pts = Inr (s1\<lparr>u := u2\<rparr>)"
proof -
  let ?s = "\<lambda>v. \<lparr>u = v, graph = pts, num_vertices = length pts,
              occupations = map (\<lambda>k. rand k < 1 / 2) [0..<length pts], edges = []\<rparr>"
  have fe: "find_edges gl0 (?s u2) = find_edges gl0 (?s u1)"
    by (rule find_edges_cong) simp
  obtain e where e: "find_edges gl0 (?s u1) = Inr e" and s1: "s1 = (?s u1)\<lparr>edges := e\<rparr>"
    using assms unfolding UDMIS_init_def Let_def
    by (cases "find_edges gl0 (?s u1)") auto
  show ?thesis
    unfolding UDMIS_init_def Let_def fe e by (simp add: s1)
qed

lemma init_empty:
  "UDMIS_init gl rand u0 [] = Inr \<lparr>u = u0, graph = [], num_vertices = 0, occupations = [], edges = []\<rparr>"
  by (simp add: UDMIS_init_def find_edges_def)

lemma py_get_replicate: "py_get (replicate n x) i = Inr y \<Longrightarrow> y = x"
  by (auto simp: py_get_def norm_index_def split: if_splits)

lemma list3:
  assumes "length xs = 3"
  obtains a b c where "xs = [a, b, c]"
proof -
  from assms obtain a ys where 1: "xs = a # ys" "length ys = 2"
    by (cases xs) simp_all
  then obtain b zs where 2: "ys = b # zs" "length zs = 1" by (cases ys) simp_all
  then obtain c where "zs = [c]" by (cases zs) simp_all
  with 1 2 that show ?thesis by simp
qed

lemma UDMIS_init_outcome:
  "UDMIS_init gl rand u2 pts = map_sum (\<lambda>e. e) (\<lambda>self. self\<lparr>u := u2\<rparr>) (UDMIS_init gl rand u1 pts)"
proof -
  let ?s = "\<lambda>v. \<lparr>u = v, graph = pts, num_vertices = length pts,
              occupations = map (\<lambda>k. rand k < 1 / 2) [0..<length pts], edges = []\<rparr>"
  have fe: "find_edges gl (?s u2) = find_edges gl (?s u1)"
    by (rule find_edges_cong) simp
  show ?thesis
    unfolding UDMIS_init_def Let_def fe
    by (cases "find_edges gl (?s u1)") simp_all
qed

section \<open>Energies under a dyadic interaction strength\<close>

lemma abs_le_bound:
  fixes z P V B D :: int
  assumes "0 \<le> P" "P \<le> N" "0 \<le> V" "V \<le> N" "0 < D" "(\<bar>z\<bar> + D) * N < B"
  shows "\<bar>z * P\<bar> < B" and "\<bar>z * P - V * D\<bar> < B" and "\<bar>z * P + - V * D\<bar> < B"
    and "\<bar>- z * P\<bar> < B" and "\<bar>- z * P + V * D\<bar> < B" and "\<bar>P\<bar> < B" and "\<bar>V\<bar> < B"
proof -
  have N: "0 \<le> N" using assms(1,2) by simp
  have zp: "\<bar>z * P\<bar> \<le> \<bar>z\<bar> * N"
    using assms(1,2) by (simp add: abs_mult mult_left_mono)
  have vd: "0 \<le> V * D" "V * D \<le> D * N"
    using assms(3,4,5) by (simp_all add: mult.commute mult_left_mono)
  have e: "(\<bar>z\<bar> + D) * N = \<bar>z\<bar> * N + D * N" by (simp add: algebra_simps)
  have zn: "0 \<le> \<bar>z\<bar> * N" using N by simp
  have dn: "N \<le> D * N" using assms(5) N by (simp add: mult_le_cancel_right1)
  show "\<bar>z * P\<bar> < B" using zp e vd N dn assms(6) by linarith
  show "\<bar>z * P - V * D\<bar> < B" using zp e vd assms(6) by linarith
  then show "\<bar>z * P + - V * D\<bar> < B" by simp
  show "\<bar>- z * P\<bar> < B" using zp e vd N dn assms(6) by simp
  show "\<bar>- z * P + V * D\<bar> < B" using zp e vd assms(6) by (simp add: abs_if split: if_splits)
  show "\<bar>P\<bar> < B" using assms(1,2,6) e zn dn by linarith
  show "\<bar>V\<bar> < B" using assms(3,4,6) e zn dn by linarith
qed

lemma dyadic_scale:
  assumes n: "1 \<le> n" and bound: "(\<bar>z\<bar> + 2 ^ s) * int (n * n) < 2 ^ 52"
  shows "s \<le> 1074"
proof -
  have N: "1 \<le> int (n * n)" using n by (cases n) simp_all
  have "(2::int) ^ s * 1 \<le> (\<bar>z\<bar> + 2 ^ s) * int (n * n)"
    using N by (intro mult_mono) simp_all
  then have "(2::int) ^ s < 2 ^ 52" using bound by linarith
  then have "s < 52" by (simp only: power_strict_increasing_iff [of 2])
  then show ?thesis by simp
qed

lemma energy_dyadic_u:
  assumes wf: "well_formed self" and n: "1 \<le> num_vertices self"
    and u: "g_u gl = Finite (of_int z / 2 ^ s)"
    and bound: "(\<bar>z\<bar> + 2 ^ s) * int (num_vertices self * num_vertices self) < 2 ^ 52"
  shows "energy gl self =
     Inr (Finite (of_int (z * pair_count self - site_count self * 2 ^ s) / 2 ^ s))"
proof -
  let ?N = "int (num_vertices self * num_vertices self)"
  have s: "s \<le> 1074" by (rule dyadic_scale [OF n bound])
  have nN: "int (num_vertices self) \<le> ?N" using n by (cases "num_vertices self") simp_all
  have b53: "(\<bar>z\<bar> + 2 ^ s) * ?N < 2 ^ 53" using bound by simp
  have V: "site_count self \<le> ?N" using count_bounds(4) [of self] nN by linarith
  have D: "(0::int) < 2 ^ s" by simp
  note B = abs_le_bound [OF count_bounds(1,2) count_bounds(3) V D b53]
  show ?thesis
    unfolding energy_closed [OF wf n] u
    by (simp only: of_count_exact [OF B(6)] of_count_exact [OF B(7)]
        fmul_frac [OF B(1) s] int_as_frac [of "site_count self" s] fsub_frac [OF B(2) s])
qed

lemma energy_diff_dyadic_u:
  assumes wf: "well_formed self" and i: "i < num_vertices self"
    and u: "g_u gl = Finite (of_int z / 2 ^ s)"
    and bound: "(\<bar>z\<bar> + 2 ^ s) * int (num_vertices self * num_vertices self) < 2 ^ 52"
  shows "energy_diff gl self (int i) =
     Inr (Finite (of_int ((if occupations self ! i then - 1 else 1)
                            * (z * nbr_count self i - 2 ^ s)) / 2 ^ s))"
proof -
  let ?N = "int (num_vertices self * num_vertices self)"
  have n: "1 \<le> num_vertices self" using i by simp
  have s: "s \<le> 1074" by (rule dyadic_scale [OF n bound])
  have nN: "int (num_vertices self) \<le> ?N" using n by (cases "num_vertices self") simp_all
  have N1: "1 \<le> ?N" using n nN by linarith
  have b53: "(\<bar>z\<bar> + 2 ^ s) * ?N < 2 ^ 53" using bound by simp
  have K: "nbr_count self i \<le> ?N" using count_bounds(6) [of self i] nN by linarith
  have one: "(0::int) \<le> 1" by simp
  have D: "(0::int) < 2 ^ s" by simp
  note B = abs_le_bound [OF count_bounds(5) K one N1 D b53]
  have f1: "Finite 1 = Finite (of_int (2 ^ s) / 2 ^ s)"
    and fm1: "Finite (- 1) = Finite (of_int (- (2 ^ s)) / 2 ^ s)"
    by simp_all
  have neg: "fneg (Finite (of_int z / 2 ^ s)) = Finite (of_int (- z) / 2 ^ s)"
    by (simp add: fneg_def)
  have p: "\<bar>- z * nbr_count self i + 2 ^ s\<bar> < 2 ^ 53" using B(5) by simp
  have m: "\<bar>z * nbr_count self i + - (2 ^ s)\<bar> < 2 ^ 53" using B(2) by simp
  show ?thesis
  proof (cases "occupations self ! i")
    case True
    then show ?thesis
      unfolding energy_diff_closed [OF wf i] u neg f1
      by (simp only: of_count_exact [OF B(6)] fmul_frac [OF B(4) s] fadd_frac [OF p s] if_True)
        (simp add: algebra_simps)
  next
    case False
    then show ?thesis
      unfolding energy_diff_closed [OF wf i] u fm1
      by (simp only: of_count_exact [OF B(6)] fmul_frac [OF B(1) s] fadd_frac [OF m s] if_False)
        (simp add: algebra_simps)
  qed
qed

lemma energy_two:
  assumes "\<bar>k\<bar> \<le> 3" and "\<bar>v\<bar> \<le> 3"
  shows "fsub (fmul (Finite 2) (of_count k)) (of_count v) = Finite (of_int (2 * k - v))"
proof -
  have k: "\<bar>k\<bar> < 2 ^ 53" and v: "\<bar>v\<bar> < 2 ^ 53" using assms by simp_all
  have m: "\<bar>2 * k\<bar> < 2 ^ 53" using assms by simp
  have s: "\<bar>2 * k - v\<bar> < 2 ^ 53" using assms by simp
  have two: "Finite 2 = Finite (of_int 2)" by simp
  show ?thesis
    unfolding two by (simp only: of_count_exact [OF k] of_count_exact [OF v]
        fmul_int [OF m] fsub_int [OF s])
qed

lemma triangle_energy:
  assumes g: "g_graph gl = [p0, p1, p2]"
    and w: "within_radius p0 p1" "within_radius p0 p2" "within_radius p1 p2"
    and init: "UDMIS_init gl rand u0 (g_graph gl) = Inr s0"
  shows "energy gl (s0\<lparr>occupations := [a, b, c]\<rparr>) =
     Inr (fsub (fmul (g_u gl) (of_count ((if a \<and> b then 1 else 0) + (if a \<and> c then 1 else 0)
                          + (if b \<and> c then 1 else 0))))
          (of_count ((if a then 1 else 0) + (if b then 1 else 0) + (if c then 1 else 0))))"
proof -
  let ?s = "s0\<lparr>occupations := [a, b, c]\<rparr>"
  note r = UDMIS_init_result [OF init]
  have n: "num_vertices s0 = Suc (Suc (Suc 0))" using r(3) g by simp
  have wf: "well_formed ?s"
    by (rule well_formed_occupations [OF r(1)]) (simp add: n)
  have pos: "1 \<le> num_vertices ?s" using n by simp
  have e: "edges s0 ! 0 ! 1" "edges s0 ! 0 ! 2" "edges s0 ! 1 ! 2"
    using UDMIS_init_edges [OF init, of 0 1] UDMIS_init_edges [OF init, of 0 2]
      UDMIS_init_edges [OF init, of 1 2] g w by simp_all
  have e': "edges s0 ! 0 ! Suc 0" "edges s0 ! 0 ! Suc (Suc 0)" "edges s0 ! Suc 0 ! Suc (Suc 0)"
    using e by (simp_all add: numeral_2_eq_2)
  show ?thesis
    unfolding energy_closed [OF wf pos] pair_count_def site_count_def
    by (simp add: n pair_term_def site_term_def e')
qed

section \<open>The instances, evaluated\<close>

lemma u_times_1: "fmul u_notebook (of_count 1) = u_notebook"
  using round64_frac [of 3039929748475085 51] of_count_exact [of 1]
  by (simp add: u_notebook_def)

lemma u_times_0: "fmul u_notebook (of_count 0) = Finite 0"
  using of_count_exact [of 0] by (simp add: u_notebook_def round64_def)

lemma u_times_3: "fmul u_notebook (of_count 3) = Finite (1139973655678157 / 2 ^ 48)"
proof -
  have "round64 (3039929748475085 / 2 ^ 51 * 3) = Finite (of_int 4559894622712628 * pow2 (- 50))"
  proof (rule round64_eval [where e = 2])
    show "pow2 2 \<le> \<bar>3039929748475085 / 2 ^ 51 * 3 :: real\<bar>" by (simp add: pow2_def)
    show "\<bar>3039929748475085 / 2 ^ 51 * 3 :: real\<bar> < pow2 (2 + 1)" by (simp add: pow2_def)
    show "(- 50 :: int) = max (2 - 52) (- 1074)" by simp
    show "round_even (3039929748475085 / 2 ^ 51 * 3 / pow2 (- 50)) = 4559894622712628"
      by (simp add: pow2_def round_even_def)
    show "\<bar>of_int 4559894622712628 * pow2 (- 50)\<bar> < (2 ^ 1024 :: real)"
      by (simp add: pow2_def)
  qed
  then show ?thesis
    using of_count_exact [of 3] by (simp add: u_notebook_def pow2_def)
qed

lemma e_3u_minus_3:
  "fsub (Finite (1139973655678157 / 2 ^ 48)) (of_count 3) = Finite (295548725546189 / 2 ^ 48)"
  using round64_frac [of 295548725546189 48] of_count_exact [of 3]
  by (simp add: fsub_def fneg_def)

lemma e_u_minus_2:
  "fsub u_notebook (of_count 2) = Finite (- 1463669878895411 / 2 ^ 51)"
  using round64_frac [of "- 1463669878895411" 51] of_count_exact [of 2]
  by (simp add: fsub_def fneg_def u_notebook_def)

lemma e_0_minus_1: "fsub (Finite 0) (of_count 1) = Finite (- 1)"
  using round64_int [of "- 1"] of_count_exact [of 1]
  by (simp add: fsub_def fneg_def)

lemma d_neg_u_times_2:
  "fadd (fmul (fneg u_notebook) (of_count 2)) (Finite 1) = Finite (- 1914029841632461 / 2 ^ 50)"
  using round64_frac [of "- 3039929748475085" 50] round64_frac [of "- 1914029841632461" 50]
    of_count_exact [of 2]
  by (simp add: fneg_def u_notebook_def)

lemma d_neg_u_times_1:
  "fadd (fmul (fneg u_notebook) (of_count 1)) (Finite 1) = Finite (- 788129934789837 / 2 ^ 51)"
  using round64_frac [of "- 3039929748475085" 51] round64_frac [of "- 788129934789837" 51]
    of_count_exact [of 1]
  by (simp add: fneg_def u_notebook_def)

lemma d_u_times_1:
  "fadd (fmul u_notebook (of_count 1)) (Finite (- 1)) = Finite (788129934789837 / 2 ^ 51)"
  using round64_frac [of "3039929748475085" 51] round64_frac [of "788129934789837" 51]
    of_count_exact [of 1]
  by (simp add: u_notebook_def)

lemma sum_before_diff:
  "fadd (Finite (295548725546189 / 2 ^ 48)) (Finite (- 1914029841632461 / 2 ^ 50))
     = Finite (- 731834939447705 / 2 ^ 50)"
  using round64_frac [of "- 731834939447705" 50] by simp

lemma ex_init:
  "UDMIS_init ex_globals ex_rand u_notebook ex_points = Inr ex_state"
  by (simp add: UDMIS_init_def find_edges_def ex_globals_def ex_points_def ex_rand_def
      ex_state_def ex_edges_def upt_conv_Cons py_get_def py_set_def np_set2_def
      norm_index_def power2_eq_square)

lemma ex_energy:
  "energy ex_globals (ex_state\<lparr>occupations := [a, b, c]\<rparr>)
     = Inr (fsub (fmul u_notebook (of_count (if a \<and> c then 1 else 0)))
                 (of_count ((if a then 1 else 0) + (if b then 1 else 0) + (if c then 1 else 0))))"
  by (simp add: energy_def ex_globals_def ex_state_def ex_edges_def upt_conv_Cons
      py_get_def np_get2_def norm_index_def)

lemma ex_energy_diff_2:
  "energy_diff ex_globals (ex_state\<lparr>occupations := [True, False, True]\<rparr>) 2
     = Inr (Finite (- 788129934789837 / 2 ^ 51))"
  using d_neg_u_times_1
  by (simp add: energy_diff_def ex_globals_def ex_state_def ex_edges_def upt_conv_Cons
      py_get_def norm_index_def)

lemma ex_energy_diff_0:
  "energy_diff ex_globals (ex_state\<lparr>occupations := [False, False, True]\<rparr>) 0
     = Inr (Finite (788129934789837 / 2 ^ 51))"
  using d_u_times_1
  by (simp add: energy_diff_def ex_globals_def ex_state_def ex_edges_def upt_conv_Cons
      py_get_def norm_index_def)

lemma ex_init_5: "UDMIS_init ex_globals ex_rand (Finite 5) ex_points = Inr (ex_state\<lparr>u := Finite 5\<rparr>)"
  by (rule UDMIS_init_u [OF ex_init])

lemma ex_energy_101:
  "energy ex_globals (ex_state\<lparr>occupations := [True, False, True]\<rparr>)
     = Inr (Finite (- 1463669878895411 / 2 ^ 51))"
  using u_times_1 e_u_minus_2 by (simp add: ex_energy)

lemma ex_energy_one:
  "energy ex_globals (ex_state\<lparr>occupations := [True, False, False]\<rparr>) = Inr (Finite (- 1))"
  "energy ex_globals (ex_state\<lparr>occupations := [False, False, True]\<rparr>) = Inr (Finite (- 1))"
  using u_times_0 e_0_minus_1 by (simp_all add: ex_energy)

lemma ex_acceptance_probability:
  "exp (- (788129934789837 / 2 ^ 51) / (1 / 10) :: real) < 3 / 4"
proof -
  let ?x = "788129934789837 / 2 ^ 51 / (1 / 10) :: real"
  have "3 \<le> ?x" by simp
  then have "(4 :: real) \<le> 1 + ?x" by linarith
  also have "\<dots> \<le> exp ?x" by (rule exp_ge_add_one_self)
  finally have "inverse (exp ?x) \<le> inverse 4"
    by (intro le_imp_inverse_le) simp_all
  then have "exp (- ?x) \<le> 1 / 4" by (simp add: exp_minus)
  then have "exp (- ?x) < 3 / 4" by linarith
  then show ?thesis by simp
qed

lemma tri_init: "UDMIS_init tri_globals ex_rand (g_u tri_globals) (g_graph tri_globals) = Inr tri_state"
  by (simp add: UDMIS_init_def find_edges_def tri_globals_def tri_points_def ex_rand_def
      tri_state_def upt_conv_Cons py_get_def py_set_def np_set2_def
      norm_index_def power2_eq_square)

lemma tri135_init:
  "UDMIS_init tri135_globals ex_rand u_notebook tri_points = Inr (tri_state\<lparr>u := u_notebook\<rparr>)"
  using UDMIS_init_u [OF tri_init, of u_notebook]
  by (simp add: UDMIS_init_def find_edges_def tri_globals_def tri135_globals_def)

lemma tri_energy:
  "energy gl (tri_state\<lparr>u := v, occupations := [a, b, c]\<rparr>)
     = Inr (fsub (fmul (g_u gl) (of_count ((if a \<and> b then 1 else 0) + (if a \<and> c then 1 else 0)
                                            + (if b \<and> c then 1 else 0))))
                 (of_count ((if a then 1 else 0) + (if b then 1 else 0) + (if c then 1 else 0))))"
  by (simp add: energy_def tri_state_def upt_conv_Cons
      py_get_def np_get2_def norm_index_def)

lemma tri_energy_diff_0:
  "energy_diff gl (tri_state\<lparr>u := v, occupations := [True, True, True]\<rparr>) 0
     = Inr (fadd (fmul (fneg (g_u gl)) (of_count 2)) (Finite 1))"
  by (simp add: energy_diff_def tri_state_def upt_conv_Cons py_get_def norm_index_def)

lemma tri_well_formed: "well_formed (tri_state\<lparr>u := v, occupations := [a, b, c]\<rparr>)"
  by (simp add: well_formed_def tri_state_def numeral_3_eq_3 less_Suc_eq)

lemma tri_symmetric: "symmetric_irreflexive 3 (edges tri_state)"
  by (simp add: symmetric_irreflexive_def tri_state_def numeral_3_eq_3 less_Suc_eq)

lemma tri_counts:
  "int (card {(i, j). i < j \<and> j < 3 \<and> edges tri_state ! i ! j \<and>
        [True, True, True] ! i \<and> [True, True, True] ! j}) = 3"
  "int (card {i. i < 3 \<and> [True, True, True] ! i}) = 3"
proof -
  have "int (card {(i, j). i < j \<and> j < 3 \<and> edges tri_state ! i ! j \<and>
        [True, True, True] ! i \<and> [True, True, True] ! j})
      = (\<Sum>a<3. \<Sum>b = Suc a..<3. pair_term (edges tri_state) [True, True, True] a b)"
    by (simp only: pair_sum_card)
  also have "\<dots> = 3"
    by (simp add: numeral_3_eq_3 pair_term_def tri_state_def)
  finally show "int (card {(i, j). i < j \<and> j < 3 \<and> edges tri_state ! i ! j \<and>
        [True, True, True] ! i \<and> [True, True, True] ! j}) = 3" .
  have "int (card {i. i < 3 \<and> [True, True, True] ! i})
      = (\<Sum>a<3. site_term [True, True, True] a)"
    by (simp only: site_sum_card)
  also have "\<dots> = 3" by (simp add: numeral_3_eq_3 site_term_def)
  finally show "int (card {i. i < 3 \<and> [True, True, True] ! i}) = 3" .
qed

lemma tri_within:
  "within_radius (0, 0) (1 / 2, 0)" "within_radius (0, 0) (0, 1 / 2)"
  "within_radius (1 / 2, 0) (0, 1 / 2)"
  by (simp_all add: within_radius_def cmod_def power2_eq_square)

section \<open>Energy and its incremental update\<close>

text \<open>
  C1, as stated, fails in the arithmetic of the code. The solver is the one the constructor
  returns for the fully connected triangle under the notebook's \<open>u = 1.35\<close>, all three
  vertices occupied, and \<open>i = 0\<close>. \<open>energy()\<close> returns 1.0500000000000007 before the
  toggle and -0.6499999999999999 after it, and \<open>energy_diff(0)\<close> returns
  -1.7000000000000002. The energy before plus the difference is -0.6499999999999995,
  whether the sum is taken in binary64 or exactly, and that is not the energy after.
\<close>

theorem energy_diff_rounding_counterexample:
  "UDMIS_init tri135_globals ex_rand u_notebook tri_points = Inr (tri_state\<lparr>u := u_notebook\<rparr>) \<and>
   energy tri135_globals (tri_state\<lparr>u := u_notebook, occupations := [True, True, True]\<rparr>)
     = Inr (Finite (295548725546189 / 2 ^ 48)) \<and>
   energy_diff tri135_globals (tri_state\<lparr>u := u_notebook, occupations := [True, True, True]\<rparr>) 0
     = Inr (Finite (- 1914029841632461 / 2 ^ 50)) \<and>
   energy tri135_globals (tri_state\<lparr>u := u_notebook, occupations := [False, True, True]\<rparr>)
     = Inr (Finite (- 1463669878895411 / 2 ^ 51)) \<and>
   fadd (Finite (295548725546189 / 2 ^ 48)) (Finite (- 1914029841632461 / 2 ^ 50))
     = Finite (- 731834939447705 / 2 ^ 50) \<and>
   Finite (- 731834939447705 / 2 ^ 50) \<noteq> Finite (- 1463669878895411 / 2 ^ 51) \<and>
   (295548725546189 / 2 ^ 48 + - 1914029841632461 / 2 ^ 50 :: real) \<noteq> - 1463669878895411 / 2 ^ 51"
proof -
  have g: "g_u tri135_globals = u_notebook" by (simp add: tri135_globals_def)
  have a: "energy tri135_globals (tri_state\<lparr>u := u_notebook, occupations := [True, True, True]\<rparr>)
     = Inr (Finite (295548725546189 / 2 ^ 48))"
    using u_times_3 e_3u_minus_3 by (simp add: tri_energy g)
  have d: "energy_diff tri135_globals (tri_state\<lparr>u := u_notebook, occupations := [True, True, True]\<rparr>) 0
     = Inr (Finite (- 1914029841632461 / 2 ^ 50))"
    using d_neg_u_times_2 by (simp add: tri_energy_diff_0 g)
  have b: "energy tri135_globals (tri_state\<lparr>u := u_notebook, occupations := [False, True, True]\<rparr>)
     = Inr (Finite (- 1463669878895411 / 2 ^ 51))"
    using u_times_1 e_u_minus_2 by (simp add: tri_energy g)
  have n1: "Finite (- 731834939447705 / 2 ^ 50) \<noteq> Finite (- 1463669878895411 / 2 ^ 51)"
    by simp
  have n2: "(295548725546189 / 2 ^ 48 + - 1914029841632461 / 2 ^ 50 :: real)
      \<noteq> - 1463669878895411 / 2 ^ 51"
    by simp
  from tri135_init a d b sum_before_diff n1 n2 show ?thesis by blast
qed

text \<open>
  C1, amended. Take a solver with \<open>n\<close> occupations and an \<open>n \<times> n\<close> adjacency matrix that is
  symmetric with a false diagonal (every matrix that \<open>find_edges\<close> builds is), a vertex
  index \<open>i\<close> in range, and a module-level \<open>u\<close> that is a dyadic rational \<open>z / 2\<^sup>s\<close> with
  \<open>(|z| + 2\<^sup>s) n\<^sup>2 < 2\<^sup>5\<^sup>2\<close>, so that no operation rounds; the integers (\<open>s = 0\<close>) are among
  them. Then \<open>energy()\<close> and \<open>energy_diff(i)\<close> return finite values \<open>E\<close> and \<open>d\<close>,
  \<open>energy()\<close> after toggling \<open>occupations[i]\<close> returns \<open>E + d\<close>, and the binary64 sum of
  \<open>E\<close> and \<open>d\<close> is \<open>E + d\<close> as well. The occupation of \<open>i\<close> is arbitrary, so both
  directions of the flip are covered. The instance is the triangle under \<open>u = 1.5\<close>:
  1.5, -2 and -0.5.
\<close>

theorem energy_diff_consistent:
  assumes wf: "well_formed self"
    and si: "symmetric_irreflexive (num_vertices self) (edges self)"
    and i: "i < num_vertices self"
    and u: "g_u gl = Finite (of_int z / 2 ^ s)"
    and bound: "(\<bar>z\<bar> + 2 ^ s) * int (num_vertices self * num_vertices self) < 2 ^ 52"
  shows "\<exists>E d. energy gl self = Inr (Finite E) \<and>
           energy_diff gl self (int i) = Inr (Finite d) \<and>
           energy gl (self\<lparr>occupations := (occupations self)[i := \<not> occupations self ! i]\<rparr>)
             = Inr (Finite (E + d)) \<and>
           fadd (Finite E) (Finite d) = Finite (E + d)"
proof -
  let ?s' = "self\<lparr>occupations := (occupations self)[i := \<not> occupations self ! i]\<rparr>"
  let ?dl = "if occupations self ! i then - 1 else 1 :: int"
  let ?E = "z * pair_count self - site_count self * 2 ^ s"
  let ?d = "?dl * (z * nbr_count self i - 2 ^ s)"
  have n: "1 \<le> num_vertices self" using i by simp
  have s: "s \<le> 1074" by (rule dyadic_scale [OF n bound])
  have len: "length (occupations self) = num_vertices self"
    using wf by (simp add: well_formed_def)
  have wf': "well_formed ?s'"
    by (rule well_formed_occupations [OF wf]) (simp add: len)
  have E: "energy gl self = Inr (Finite (of_int ?E / 2 ^ s))"
    by (rule energy_dyadic_u [OF wf n u bound])
  have d: "energy_diff gl self (int i) = Inr (Finite (of_int ?d / 2 ^ s))"
    by (rule energy_diff_dyadic_u [OF wf i u bound])
  have eq: "z * pair_count ?s' - site_count ?s' * 2 ^ s = ?E + ?d"
    unfolding pair_count_toggle [OF wf si i] site_count_toggle [OF wf i]
    by (simp add: algebra_simps)
  have "energy gl ?s' = Inr (Finite (of_int (z * pair_count ?s' - site_count ?s' * 2 ^ s) / 2 ^ s))"
    by (rule energy_dyadic_u [OF wf' _ u]) (use n bound in simp_all)
  then have E': "energy gl ?s' = Inr (Finite (of_int (?E + ?d) / 2 ^ s))"
    by (simp only: eq)
  have nN: "int (num_vertices ?s') \<le> int (num_vertices ?s' * num_vertices ?s')"
    using n by (cases "num_vertices self") simp_all
  have b53: "(\<bar>z\<bar> + 2 ^ s) * int (num_vertices ?s' * num_vertices ?s') < 2 ^ 53"
    using bound by simp
  have V: "site_count ?s' \<le> int (num_vertices ?s' * num_vertices ?s')"
    using count_bounds(4) [of ?s'] nN by linarith
  have D: "(0::int) < 2 ^ s" by simp
  have "\<bar>z * pair_count ?s' - site_count ?s' * 2 ^ s\<bar> < 2 ^ 53"
    by (rule abs_le_bound(2) [OF count_bounds(1,2) count_bounds(3) V D b53])
  then have "\<bar>?E + ?d\<bar> < 2 ^ 53" by (simp only: eq)
  from fadd_frac [OF this s]
  have sum: "fadd (Finite (of_int ?E / 2 ^ s)) (Finite (of_int ?d / 2 ^ s))
      = Finite (of_int ?E / 2 ^ s + of_int ?d / 2 ^ s)"
    by (simp add: add_divide_distrib)
  have E'': "energy gl ?s' = Inr (Finite (of_int ?E / 2 ^ s + of_int ?d / 2 ^ s))"
    using E' by (simp add: add_divide_distrib)
  show ?thesis using E d E'' sum by blast
qed


theorem energy_diff_consistent_witness:
  "well_formed (tri_state\<lparr>occupations := [True, True, True]\<rparr>) \<and>
   symmetric_irreflexive (num_vertices (tri_state\<lparr>occupations := [True, True, True]\<rparr>))
     (edges (tri_state\<lparr>occupations := [True, True, True]\<rparr>)) \<and>
   0 < num_vertices (tri_state\<lparr>occupations := [True, True, True]\<rparr>) \<and>
   g_u (tri_globals\<lparr>g_u := Finite (3 / 2)\<rparr>) = Finite (of_int 3 / 2 ^ 1) \<and>
   (\<bar>3\<bar> + 2 ^ 1) * int (num_vertices (tri_state\<lparr>occupations := [True, True, True]\<rparr>)
      * num_vertices (tri_state\<lparr>occupations := [True, True, True]\<rparr>)) < 2 ^ 52 \<and>
   energy (tri_globals\<lparr>g_u := Finite (3 / 2)\<rparr>) (tri_state\<lparr>occupations := [True, True, True]\<rparr>)
     = Inr (Finite (3 / 2)) \<and>
   energy_diff (tri_globals\<lparr>g_u := Finite (3 / 2)\<rparr>)
     (tri_state\<lparr>occupations := [True, True, True]\<rparr>) (int 0) = Inr (Finite (- 2)) \<and>
   energy (tri_globals\<lparr>g_u := Finite (3 / 2)\<rparr>) (tri_state\<lparr>occupations := [False, True, True]\<rparr>)
     = Inr (Finite (3 / 2 + - 2)) \<and>
   fadd (Finite (3 / 2)) (Finite (- 2)) = Finite (3 / 2 + - 2)"
proof -
  let ?s = "tri_state\<lparr>occupations := [True, True, True]\<rparr>"
  let ?g = "tri_globals\<lparr>g_u := Finite (3 / 2)\<rparr>"
  have s: "?s = tri_state\<lparr>u := Finite 2, occupations := [True, True, True]\<rparr>"
    by (simp add: tri_state_def)
  have wf: "well_formed ?s" unfolding s by (rule tri_well_formed)
  have nv: "num_vertices ?s = 3" by (simp add: tri_state_def)
  have si: "symmetric_irreflexive (num_vertices ?s) (edges ?s)"
    using tri_symmetric by (simp add: nv)
  have i: "0 < num_vertices ?s" by (simp add: nv)
  have u: "g_u ?g = Finite (of_int 3 / 2 ^ 1)" by simp
  have bound: "(\<bar>3\<bar> + 2 ^ 1) * int (num_vertices ?s * num_vertices ?s) < 2 ^ 52"
    by (simp add: nv)
  have E: "energy ?g ?s = Inr (Finite (3 / 2))"
    unfolding s tri_energy
    using of_count_exact [of 3] round64_frac [of 9 1] round64_frac [of 3 1]
    by (simp add: fsub_def fneg_def)
  have d: "energy_diff ?g ?s (int 0) = Inr (Finite (- 2))"
    unfolding s
    using of_count_exact [of 2] round64_frac [of "- 3" 0] round64_frac [of "- 2" 0]
    by (simp add: tri_energy_diff_0 fneg_def)
  from energy_diff_consistent [OF wf si i u bound]
  obtain E' d' where t: "energy ?g ?s = Inr (Finite E')"
      "energy_diff ?g ?s (int 0) = Inr (Finite d')"
      "energy ?g (?s\<lparr>occupations := (occupations ?s)[0 := \<not> occupations ?s ! 0]\<rparr>)
         = Inr (Finite (E' + d'))"
      "fadd (Finite E') (Finite d') = Finite (E' + d')"
    by blast
  have "E' = 3 / 2" "d' = - 2" using t(1,2) E d by simp_all
  with t(3,4) have a: "energy ?g (tri_state\<lparr>occupations := [False, True, True]\<rparr>)
      = Inr (Finite (3 / 2 + - 2))"
    and b: "fadd (Finite (3 / 2)) (Finite (- 2)) = Finite (3 / 2 + - 2)"
    by (simp_all add: tri_state_def)
  from wf si i u bound E d a b show ?thesis by blast
qed

text \<open>
  C2 (the UD-MIS Hamiltonian). For a solver with at least one vertex and any occupation
  configuration, \<open>energy()\<close> returns the module-level \<open>u\<close> times the number of pairs
  \<open>i < j\<close> that are adjacent and both occupied, minus the number of occupied vertices,
  the product and the difference being those of binary64 arithmetic on the two counts
  converted to binary64. At the notebook's \<open>u\<close> with three pairs and three vertices
  occupied that is 1.0500000000000007.
\<close>

theorem energy_hamiltonian:
  assumes wf: "well_formed self" and n: "1 \<le> num_vertices self"
  shows "energy gl self =
     Inr (fsub
       (fmul (g_u gl)
          (of_count (int (card {(i, j). i < j \<and> j < num_vertices self \<and>
              edges self ! i ! j \<and> occupations self ! i \<and> occupations self ! j}))))
       (of_count (int (card {i. i < num_vertices self \<and> occupations self ! i}))))"
  unfolding energy_closed [OF wf n] pair_count_def site_count_def
  by (simp only: pair_sum_card site_sum_card)

theorem energy_hamiltonian_witness:
  "well_formed (tri_state\<lparr>u := u_notebook, occupations := [True, True, True]\<rparr>) \<and>
   1 \<le> num_vertices (tri_state\<lparr>u := u_notebook, occupations := [True, True, True]\<rparr>) \<and>
   int (card {(i, j). i < j \<and> j < 3 \<and> edges tri_state ! i ! j \<and>
        [True, True, True] ! i \<and> [True, True, True] ! j}) = 3 \<and>
   int (card {i. i < 3 \<and> [True, True, True] ! i}) = 3 \<and>
   energy tri135_globals (tri_state\<lparr>u := u_notebook, occupations := [True, True, True]\<rparr>)
     = Inr (fsub (fmul u_notebook (of_count 3)) (of_count 3)) \<and>
   fsub (fmul u_notebook (of_count 3)) (of_count 3) = Finite (295548725546189 / 2 ^ 48)"
proof -
  let ?s = "tri_state\<lparr>u := u_notebook, occupations := [True, True, True]\<rparr>"
  have wf: "well_formed ?s" by (rule tri_well_formed)
  have nv: "num_vertices ?s = 3" by (simp add: tri_state_def)
  have n: "1 \<le> num_vertices ?s" by (simp add: nv)
  have e: "edges ?s = edges tri_state" "occupations ?s = [True, True, True]" by simp_all
  have g: "g_u tri135_globals = u_notebook" by (simp add: tri135_globals_def)
  have "energy tri135_globals ?s = Inr (fsub (fmul u_notebook (of_count 3)) (of_count 3))"
    using energy_hamiltonian [OF wf n, of tri135_globals]
    by (simp only: nv e g tri_counts)
  moreover have "fsub (fmul u_notebook (of_count 3)) (of_count 3) = Finite (295548725546189 / 2 ^ 48)"
    by (simp only: u_times_3 e_3u_minus_3)
  ultimately show ?thesis using wf n tri_counts by blast
qed

text \<open>
  C10 (\<open>energy()\<close> is partial at \<open>n = 0\<close>). For a solver that the constructor
  returns, with any occupation vector of its length: if the point sequence is empty,
  \<open>energy()\<close> raises \<open>IndexError\<close> at \<open>occupations[num_vertices - 1]\<close>, and if it is
  not empty \<open>energy()\<close> returns a value. So \<open>energy()\<close> returns exactly when
  \<open>n \<ge> 1\<close>.
\<close>

theorem energy_partial_at_zero:
  assumes init: "UDMIS_init gl0 rand u0 pts = Inr s0" and len: "length occ = length pts"
  shows "(pts = [] \<longrightarrow> energy gl (s0\<lparr>occupations := occ\<rparr>) = Inl IndexError) \<and>
         (pts \<noteq> [] \<longrightarrow> (\<exists>E. energy gl (s0\<lparr>occupations := occ\<rparr>) = Inr E))"
proof -
  note r = UDMIS_init_result [OF init]
  have wf: "well_formed (s0\<lparr>occupations := occ\<rparr>)"
    by (rule well_formed_occupations [OF r(1)]) (simp add: len r(3))
  have "energy gl (s0\<lparr>occupations := occ\<rparr>) = Inl IndexError" if "pts = []"
    by (rule energy_empty) (use that len r(3) in simp_all)
  moreover have "\<exists>E. energy gl (s0\<lparr>occupations := occ\<rparr>) = Inr E" if "pts \<noteq> []"
  proof -
    have "1 \<le> num_vertices (s0\<lparr>occupations := occ\<rparr>)"
      using that r(3) by (cases pts) simp_all
    from energy_closed [OF wf this, of gl] show ?thesis by blast
  qed
  ultimately show ?thesis by blast
qed

theorem energy_partial_at_zero_witness:
  "UDMIS_init ex_globals ex_rand u_notebook []
     = Inr \<lparr>u = u_notebook, graph = [], num_vertices = 0, occupations = [], edges = []\<rparr> \<and>
   length ([] :: bool list) = length ([] :: point list) \<and>
   energy ex_globals \<lparr>u = u_notebook, graph = [], num_vertices = 0, occupations = [], edges = []\<rparr>
     = Inl IndexError \<and>
   UDMIS_init ex_globals ex_rand u_notebook ex_points = Inr ex_state \<and>
   length [True, False, True] = length ex_points \<and> ex_points \<noteq> [] \<and>
   (\<exists>E. energy ex_globals (ex_state\<lparr>occupations := [True, False, True]\<rparr>) = Inr E)"
proof -
  have len: "length [True, False, True] = length ex_points" and ne: "ex_points \<noteq> []"
    by (simp_all add: ex_points_def)
  have len0: "length ([] :: bool list) = length ([] :: point list)" by simp
  have "energy ex_globals \<lparr>u = u_notebook, graph = [], num_vertices = 0, occupations = [], edges = []\<rparr>
     = Inl IndexError"
    using energy_partial_at_zero [OF init_empty [of ex_globals ex_rand u_notebook] len0, of ex_globals]
    by simp
  moreover have "\<exists>E. energy ex_globals (ex_state\<lparr>occupations := [True, False, True]\<rparr>) = Inr E"
    using energy_partial_at_zero [OF ex_init len, of ex_globals] ne by blast
  ultimately show ?thesis using init_empty [of ex_globals ex_rand u_notebook] ex_init len ne by simp
qed

text \<open>
  C9 (the energies read the module-level \<open>u\<close>). Two solvers constructed from the same
  points and draws with different arguments \<open>u1\<close> and \<open>u2\<close> store different
  \<open>self.u\<close>, yet for every occupation configuration and every index \<open>energy()\<close> and
  \<open>energy_diff(i)\<close> give the same result on both, whenever the module-level \<open>u\<close> is
  the same at the two calls; nothing else of the globals matters.
\<close>

theorem energy_reads_module_u:
  assumes i1: "UDMIS_init gl0 rand u1 pts = Inr s1"
    and i2: "UDMIS_init gl0 rand u2 pts = Inr s2"
    and g: "g_u gl = g_u gl'"
  shows "u s1 = u1 \<and> u s2 = u2 \<and>
         energy gl (s1\<lparr>occupations := occ\<rparr>) = energy gl' (s2\<lparr>occupations := occ\<rparr>) \<and>
         energy_diff gl (s1\<lparr>occupations := occ\<rparr>) i = energy_diff gl' (s2\<lparr>occupations := occ\<rparr>) i"
proof -
  have s2: "s2 = s1\<lparr>u := u2\<rparr>"
    using UDMIS_init_u [OF i1, of u2] i2 by simp
  have "u s1 = u1" by (rule UDMIS_init_result(5) [OF i1])
  moreover have "u s2 = u2" by (rule UDMIS_init_result(5) [OF i2])
  moreover have "energy gl (s1\<lparr>occupations := occ\<rparr>) = energy gl' (s2\<lparr>occupations := occ\<rparr>)"
    by (rule energy_cong(1)) (simp_all add: g s2)
  moreover have "energy_diff gl (s1\<lparr>occupations := occ\<rparr>) i
      = energy_diff gl' (s2\<lparr>occupations := occ\<rparr>) i"
    by (rule energy_cong(2)) (simp_all add: g s2)
  ultimately show ?thesis by blast
qed

theorem energy_reads_module_u_witness:
  "UDMIS_init ex_globals ex_rand u_notebook ex_points = Inr ex_state \<and>
   UDMIS_init ex_globals ex_rand (Finite 5) ex_points = Inr (ex_state\<lparr>u := Finite 5\<rparr>) \<and>
   g_u ex_globals = g_u (ex_globals\<lparr>g_graph := []\<rparr>) \<and>
   u ex_state = u_notebook \<and> u (ex_state\<lparr>u := Finite 5\<rparr>) = Finite 5 \<and>
   energy ex_globals (ex_state\<lparr>occupations := [True, False, True]\<rparr>)
     = Inr (Finite (- 1463669878895411 / 2 ^ 51)) \<and>
   energy (ex_globals\<lparr>g_graph := []\<rparr>) (ex_state\<lparr>u := Finite 5, occupations := [True, False, True]\<rparr>)
     = Inr (Finite (- 1463669878895411 / 2 ^ 51))"
proof -
  have g: "g_u ex_globals = g_u (ex_globals\<lparr>g_graph := []\<rparr>)" by simp
  note t = energy_reads_module_u [OF ex_init ex_init_5 g, of "[True, False, True]" 0]
  have "energy (ex_globals\<lparr>g_graph := []\<rparr>) (ex_state\<lparr>u := Finite 5, occupations := [True, False, True]\<rparr>)
     = Inr (Finite (- 1463669878895411 / 2 ^ 51))"
    using t ex_energy_101 by simp
  with ex_init ex_init_5 g t ex_energy_101 show ?thesis by simp
qed

section \<open>The graph builder\<close>

text \<open>
  C4 (adjacency relation), at an input where the code breaks it. The constructor is given
  two points half a unit apart while the module-level \<open>graph\<close> holds two points five
  units apart. The solver's own points are within the radius of each other, yet
  \<open>edges[0, 1]\<close> and \<open>edges[1, 0]\<close> are false: \<open>find_edges\<close> measured the module-level
  points. All coordinates and distances involved are exact in binary64.
\<close>

theorem find_edges_misses_own_points:
  "UDMIS_init \<lparr>g_u = u_notebook, g_graph = [(0, 0), (5, 0)]\<rparr> ex_rand u_notebook [(0, 0), (1 / 2, 0)]
     = Inr \<lparr>u = u_notebook, graph = [(0, 0), (1 / 2, 0)], num_vertices = 2,
            occupations = [True, False], edges = [[False, False], [False, False]]\<rparr> \<and>
   within_radius ([(0, 0), (1 / 2, 0)] ! 0) ([(0, 0), (1 / 2, 0)] ! 1) \<and>
   np_get2 [[False, False], [False, False]] 0 1 = Inr False \<and>
   np_get2 [[False, False], [False, False]] 1 0 = Inr False"
  by (simp add: UDMIS_init_def find_edges_def ex_rand_def upt_conv_Cons py_get_def py_set_def
      np_set2_def np_get2_def norm_index_def power2_eq_square within_radius_def cmod_def)

text \<open>
  C8 (degenerate point sets). With at most one vertex, \<open>find_edges\<close> returns the
  all-false matrix of its size whatever the globals are, and no pair of indices,
  negative ones included, reads as an edge.
\<close>

theorem find_edges_degenerate:
  assumes "num_vertices self \<le> 1"
  shows "find_edges gl self =
           Inr (replicate (num_vertices self) (replicate (num_vertices self) False)) \<and>
         (\<forall>i j. np_get2 (replicate (num_vertices self) (replicate (num_vertices self) False)) i j
                  \<noteq> Inr True)"
proof -
  have "num_vertices self - 1 = 0" using assms by simp
  then have "find_edges gl self =
           Inr (replicate (num_vertices self) (replicate (num_vertices self) False))"
    by (simp add: find_edges_def)
  moreover have "np_get2 (replicate n (replicate n False)) i j \<noteq> Inr True" for n i j
  proof
    assume a: "np_get2 (replicate n (replicate n False)) i j = Inr True"
    then obtain row where row: "py_get (replicate n (replicate n False)) i = Inr row"
        "py_get row j = Inr True"
      unfolding np_get2_def
      by (cases "py_get (replicate n (replicate n False)) i") simp_all
    from py_get_replicate [OF row(1)] row(2) py_get_replicate [of n False j True]
    show False by simp
  qed
  ultimately show ?thesis by blast
qed

theorem find_edges_degenerate_witness:
  "num_vertices (ex_state\<lparr>num_vertices := 1\<rparr>) \<le> 1 \<and>
   find_edges ex_globals (ex_state\<lparr>num_vertices := 1\<rparr>) = Inr [[False]] \<and>
   np_get2 [[False]] 0 0 = Inr False \<and> np_get2 [[False]] 0 1 = Inl IndexError"
proof -
  have h: "num_vertices (ex_state\<lparr>num_vertices := 1\<rparr>) \<le> 1" by simp
  have "find_edges ex_globals (ex_state\<lparr>num_vertices := 1\<rparr>) = Inr [[False]]"
    using find_edges_degenerate [OF h, of ex_globals] by simp
  moreover have "np_get2 [[False]] 0 0 = Inr False" "np_get2 [[False]] 0 1 = Inl IndexError"
    by (simp_all add: np_get2_def py_get_def norm_index_def)
  ultimately show ?thesis using h by blast
qed

text \<open>
  C5 (the builder as a function of the constructor's points). The constructor is called
  three times with the same two points, half a unit apart, and the same \<open>u\<close> and draws.
  With the module-level \<open>graph\<close> equal to the argument the two vertices are adjacent;
  with a module-level \<open>graph\<close> whose second point is five units away they are not; with an
  empty module-level \<open>graph\<close> the constructor raises \<open>IndexError\<close>. So the adjacency
  relation is not determined by the points supplied to the constructor.
\<close>

theorem find_edges_reads_module_graph:
  "UDMIS_init \<lparr>g_u = u_notebook, g_graph = [(0, 0), (1 / 2, 0)]\<rparr> ex_rand u_notebook [(0, 0), (1 / 2, 0)]
     = Inr \<lparr>u = u_notebook, graph = [(0, 0), (1 / 2, 0)], num_vertices = 2,
            occupations = [True, False], edges = [[False, True], [True, False]]\<rparr> \<and>
   UDMIS_init \<lparr>g_u = u_notebook, g_graph = [(0, 0), (5, 0)]\<rparr> ex_rand u_notebook [(0, 0), (1 / 2, 0)]
     = Inr \<lparr>u = u_notebook, graph = [(0, 0), (1 / 2, 0)], num_vertices = 2,
            occupations = [True, False], edges = [[False, False], [False, False]]\<rparr> \<and>
   UDMIS_init \<lparr>g_u = u_notebook, g_graph = []\<rparr> ex_rand u_notebook [(0, 0), (1 / 2, 0)]
     = Inl IndexError"
  by (simp add: UDMIS_init_def find_edges_def ex_rand_def upt_conv_Cons py_get_def py_set_def
      np_set2_def norm_index_def power2_eq_square)

section \<open>Construction\<close>

text \<open>
  C6, as stated, fails: the constructor returns a solver for the empty point sequence with
  \<open>u = 0\<close>, and for three points with \<open>u = -1\<close>.
\<close>

theorem UDMIS_init_no_validation_counterexample:
  "UDMIS_init ex_globals ex_rand (Finite 0) []
     = Inr \<lparr>u = Finite 0, graph = [], num_vertices = 0, occupations = [], edges = []\<rparr> \<and>
   UDMIS_init ex_globals ex_rand (Finite (- 1)) ex_points = Inr (ex_state\<lparr>u := Finite (- 1)\<rparr>)"
  using init_empty [of ex_globals ex_rand "Finite 0"] UDMIS_init_u [OF ex_init, of "Finite (- 1)"]
  by simp

text \<open>
  C6, amended. The constructor validates nothing. For the empty point sequence it returns
  a solver with no vertices and empty arrays, whatever \<open>u\<close> is. And \<open>u\<close> is stored
  unchecked and plays no part in what construction does: for any points, the outcome with
  one \<open>u\<close> is the outcome with any other \<open>u\<close>, zero, negative, infinite or NaN, the same
  exception or the same solver up to the stored \<open>u\<close>.
\<close>

theorem UDMIS_init_no_validation:
  "UDMIS_init gl rand u0 []
     = Inr \<lparr>u = u0, graph = [], num_vertices = 0, occupations = [], edges = []\<rparr> \<and>
   UDMIS_init gl rand u2 pts
     = map_sum (\<lambda>e. e) (\<lambda>self. self\<lparr>u := u2\<rparr>) (UDMIS_init gl rand u1 pts)"
  using init_empty [of gl rand u0] UDMIS_init_outcome [of gl rand u2 pts u1] by simp

section \<open>The triangle scenario\<close>

text \<open>
  C7 (triangle energies). Let the module-level \<open>graph\<close> be three points that are pairwise
  within the radius, let the module-level \<open>u\<close> be 2, and let the solver be built as the
  notebook does, from these two values. Then \<open>energy()\<close> is 3 when all three vertices are
  occupied, it is \<open>-1\<close> for every configuration with exactly one occupied vertex, and for
  each of the eight configurations it returns a finite value that is at least \<open>-1\<close>.
\<close>

theorem triangle_energies:
  assumes g: "g_graph gl = [p0, p1, p2]" and u2: "g_u gl = Finite 2"
    and w: "within_radius p0 p1" "within_radius p0 p2" "within_radius p1 p2"
    and init: "UDMIS_init gl rand (g_u gl) (g_graph gl) = Inr s0"
  shows "energy gl (s0\<lparr>occupations := [True, True, True]\<rparr>) = Inr (Finite 3) \<and>
         (\<forall>occ. length occ = 3 \<and> length (filter (\<lambda>b. b) occ) = 1 \<longrightarrow>
                energy gl (s0\<lparr>occupations := occ\<rparr>) = Inr (Finite (- 1))) \<and>
         (\<forall>occ. length occ = 3 \<longrightarrow>
                (\<exists>E. energy gl (s0\<lparr>occupations := occ\<rparr>) = Inr (Finite E) \<and> - 1 \<le> E))"
proof (intro conjI allI impI)
  show "energy gl (s0\<lparr>occupations := [True, True, True]\<rparr>) = Inr (Finite 3)"
    by (simp add: triangle_energy [OF g w init] u2 energy_two)
next
  fix occ :: "bool list"
  assume a: "length occ = 3 \<and> length (filter (\<lambda>b. b) occ) = 1"
  then obtain a b c where occ: "occ = [a, b, c]" by (blast elim: list3)
  show "energy gl (s0\<lparr>occupations := occ\<rparr>) = Inr (Finite (- 1))"
    using a unfolding occ
    by (cases a; cases b; cases c) (simp_all add: triangle_energy [OF g w init] u2 energy_two)
next
  fix occ :: "bool list"
  assume "length occ = 3"
  then obtain a b c where occ: "occ = [a, b, c]" by (blast elim: list3)
  show "\<exists>E. energy gl (s0\<lparr>occupations := occ\<rparr>) = Inr (Finite E) \<and> - 1 \<le> E"
    unfolding occ
    by (cases a; cases b; cases c) (simp_all add: triangle_energy [OF g w init] u2 energy_two)
qed

theorem triangle_energies_witness:
  "g_graph tri_globals = [(0, 0), (1 / 2, 0), (0, 1 / 2)] \<and> g_u tri_globals = Finite 2 \<and>
   within_radius (0, 0) (1 / 2, 0) \<and> within_radius (0, 0) (0, 1 / 2) \<and>
   within_radius (1 / 2, 0) (0, 1 / 2) \<and>
   UDMIS_init tri_globals ex_rand (g_u tri_globals) (g_graph tri_globals) = Inr tri_state \<and>
   energy tri_globals (tri_state\<lparr>occupations := [True, True, True]\<rparr>) = Inr (Finite 3) \<and>
   length [False, True, False] = 3 \<and> length (filter (\<lambda>b. b) [False, True, False]) = 1 \<and>
   energy tri_globals (tri_state\<lparr>occupations := [False, True, False]\<rparr>) = Inr (Finite (- 1)) \<and>
   length [True, True, False] = 3 \<and>
   (\<exists>E. energy tri_globals (tri_state\<lparr>occupations := [True, True, False]\<rparr>) = Inr (Finite E)
        \<and> - 1 \<le> E)"
proof -
  have g: "g_graph tri_globals = [(0, 0), (1 / 2, 0), (0, 1 / 2)]"
    and u2: "g_u tri_globals = Finite 2"
    by (simp_all add: tri_globals_def tri_points_def)
  note t = triangle_energies [OF g u2 tri_within tri_init]
  have l1: "length [False, True, False] = 3 \<and> length (filter (\<lambda>b. b) [False, True, False]) = 1"
    by simp
  have l2: "length [True, True, False] = 3" by simp
  have a: "energy tri_globals (tri_state\<lparr>occupations := [True, True, True]\<rparr>) = Inr (Finite 3)"
    using t by blast
  have b: "energy tri_globals (tri_state\<lparr>occupations := [False, True, False]\<rparr>) = Inr (Finite (- 1))"
    using t l1 by blast
  have c: "\<exists>E. energy tri_globals (tri_state\<lparr>occupations := [True, True, False]\<rparr>) = Inr (Finite E)
      \<and> - 1 \<le> E"
    using t l2 by blast
  from g u2 tri_within tri_init a b c l1 l2 show ?thesis by blast
qed

section \<open>The Metropolis acceptance rule\<close>

text \<open>
  C3 (Metropolis acceptance rule). For a solver that the constructor returns, any occupation
  configuration, a drawn vertex \<open>i\<close> in range, a draw \<open>r\<close> and a temperature \<open>T > 0\<close>:
  \<open>energy_diff(i)\<close> returns some \<open>\<Delta>E\<close>, the step returns, and the energy it returns is
  \<open>energy()\<close> of the configuration it leaves. If \<open>\<Delta>E \<le> 0\<close> that configuration has
  \<open>occ[i]\<close> toggled. If \<open>\<Delta>E > 0\<close> the acceptance probability \<open>exp(-\<Delta>E / T)\<close> lies strictly
  between 0 and 1, \<open>occ[i]\<close> is toggled when \<open>r\<close> is below it, and the configuration is
  unchanged otherwise: of the draws in \<open>[0, 1)\<close>, exactly those in the initial interval
  of length \<open>exp(-\<Delta>E / T)\<close> accept. A \<open>\<Delta>E\<close> of \<open>-\<infinity>\<close> toggles; \<open>+\<infinity>\<close> and NaN leave
  the configuration unchanged.
\<close>

theorem metropolis_acceptance:
  assumes init: "UDMIS_init gl0 rand u0 pts = Inr s0"
    and len: "length occ = length pts" and i: "i < length pts" and T: "0 < T"
  shows "\<exists>dE E self'.
           energy_diff gl (s0\<lparr>occupations := occ\<rparr>) (int i) = Inr dE \<and>
           MetropolisStep gl i r T (s0\<lparr>occupations := occ\<rparr>) = Inr (self', E) \<and>
           energy gl self' = Inr E \<and>
           (\<forall>d. dE = Finite d \<longrightarrow>
              (d \<le> 0 \<longrightarrow> self' = s0\<lparr>occupations := occ[i := \<not> occ ! i]\<rparr>) \<and>
              (0 < d \<longrightarrow> 0 < exp (- d / T) \<and> exp (- d / T) < 1 \<and>
                 (r < exp (- d / T) \<longrightarrow> self' = s0\<lparr>occupations := occ[i := \<not> occ ! i]\<rparr>) \<and>
                 (\<not> r < exp (- d / T) \<longrightarrow> self' = s0\<lparr>occupations := occ\<rparr>))) \<and>
           (dE = NInf \<longrightarrow> self' = s0\<lparr>occupations := occ[i := \<not> occ ! i]\<rparr>) \<and>
           (dE = PInf \<or> dE = NaN \<longrightarrow> self' = s0\<lparr>occupations := occ\<rparr>)"
proof -
  let ?s = "s0\<lparr>occupations := occ\<rparr>"
  let ?s' = "s0\<lparr>occupations := occ[i := \<not> occ ! i]\<rparr>"
  note r = UDMIS_init_result [OF init]
  have n: "num_vertices s0 = length pts" by (rule r(3))
  have wf: "well_formed ?s"
    by (rule well_formed_occupations [OF r(1)]) (simp add: len n)
  have wf': "well_formed ?s'"
    by (rule well_formed_occupations [OF r(1)]) (simp add: len n)
  have i': "i < num_vertices ?s" using i n by simp
  have pos: "1 \<le> num_vertices ?s" "1 \<le> num_vertices ?s'" using i n by simp_all
  obtain dE where dE: "energy_diff gl ?s (int i) = Inr dE"
    using energy_diff_closed [OF wf i', of gl] by blast
  obtain E0 where E: "energy gl ?s = Inr E0"
    using energy_closed [OF wf pos(1), of gl] by blast
  obtain E1 where E': "energy gl ?s' = Inr E1"
    using energy_closed [OF wf' pos(2), of gl] by blast
  have get: "py_get occ (int i) = Inr (occ ! i)" using i len by (simp add: py_get_nat)
  have set: "py_set occ (int i) (\<not> occ ! i) = Inr (occ[i := \<not> occ ! i])"
    using i len by (simp add: py_set_nat)
  have p: "0 < exp (- d / T) \<and> exp (- d / T) < 1" if "0 < d" for d
  proof -
    have "- d / T < 0" using that T by (simp add: divide_neg_pos)
    then show ?thesis by simp
  qed
  show ?thesis
  proof (cases "accepts dE r T")
    case True
    then have "MetropolisStep gl i r T ?s = Inr (?s', E1)"
      by (simp add: MetropolisStep_def dE get set E')
    moreover have "\<forall>d. dE = Finite d \<longrightarrow> \<not> (0 < d \<and> \<not> r < exp (- d / T))"
      using True by (auto simp: accepts_def)
    moreover have "dE \<noteq> PInf" "dE \<noteq> NaN" using True by (auto simp: accepts_def)
    ultimately show ?thesis using dE E' p by auto
  next
    case False
    then have "MetropolisStep gl i r T ?s = Inr (?s, E0)"
      by (simp add: MetropolisStep_def dE E)
    moreover have "\<forall>d. dE = Finite d \<longrightarrow> 0 < d \<and> \<not> r < exp (- d / T)"
      using False by (auto simp: accepts_def)
    moreover have "dE \<noteq> NInf" using False by (auto simp: accepts_def)
    ultimately show ?thesis using dE E p by auto
  qed
qed

theorem metropolis_acceptance_witness:
  "UDMIS_init ex_globals ex_rand u_notebook ex_points = Inr ex_state \<and>
   length [False, False, True] = length ex_points \<and> 0 < length ex_points \<and>
   length [True, False, True] = length ex_points \<and> 2 < length ex_points \<and>
   (0 :: real) < 1 / 10 \<and>
   energy_diff ex_globals (ex_state\<lparr>occupations := [True, False, True]\<rparr>) (int 2)
     = Inr (Finite (- 788129934789837 / 2 ^ 51)) \<and>
   (- 788129934789837 / 2 ^ 51 :: real) \<le> 0 \<and>
   MetropolisStep ex_globals 2 (3 / 4) (1 / 10) (ex_state\<lparr>occupations := [True, False, True]\<rparr>)
     = Inr (ex_state\<lparr>occupations := [True, False, False]\<rparr>, Finite (- 1)) \<and>
   energy_diff ex_globals (ex_state\<lparr>occupations := [False, False, True]\<rparr>) (int 0)
     = Inr (Finite (788129934789837 / 2 ^ 51)) \<and>
   (0 :: real) < 788129934789837 / 2 ^ 51 \<and>
   (0 :: real) < exp (- (788129934789837 / 2 ^ 51) / (1 / 10)) \<and>
   MetropolisStep ex_globals 0 0 (1 / 10) (ex_state\<lparr>occupations := [False, False, True]\<rparr>)
     = Inr (ex_state\<lparr>occupations := [True, False, True]\<rparr>, Finite (- 1463669878895411 / 2 ^ 51)) \<and>
   \<not> (3 / 4 :: real) < exp (- (788129934789837 / 2 ^ 51) / (1 / 10)) \<and>
   MetropolisStep ex_globals 0 (3 / 4) (1 / 10) (ex_state\<lparr>occupations := [False, False, True]\<rparr>)
     = Inr (ex_state\<lparr>occupations := [False, False, True]\<rparr>, Finite (- 1))"
proof -
  have l1: "length [False, False, True] = length ex_points" and i1: "0 < length ex_points"
    and l2: "length [True, False, True] = length ex_points" and i2: "2 < length ex_points"
    by (simp_all add: ex_points_def)
  have T: "(0 :: real) < 1 / 10" by simp
  have d2: "energy_diff ex_globals (ex_state\<lparr>occupations := [True, False, True]\<rparr>) (int 2)
      = Inr (Finite (- 788129934789837 / 2 ^ 51))"
    using ex_energy_diff_2 by simp
  have d0: "energy_diff ex_globals (ex_state\<lparr>occupations := [False, False, True]\<rparr>) (int 0)
      = Inr (Finite (788129934789837 / 2 ^ 51))"
    using ex_energy_diff_0 by simp
  have neg: "(- 788129934789837 / 2 ^ 51 :: real) \<le> 0" by simp
  have pos: "(0 :: real) < 788129934789837 / 2 ^ 51" by simp
  have acc: "(0 :: real) < exp (- (788129934789837 / 2 ^ 51) / (1 / 10))" by simp
  have rej: "\<not> (3 / 4 :: real) < exp (- (788129934789837 / 2 ^ 51) / (1 / 10))"
    using ex_acceptance_probability by linarith
  have a: "MetropolisStep ex_globals 2 (3 / 4) (1 / 10) (ex_state\<lparr>occupations := [True, False, True]\<rparr>)
     = Inr (ex_state\<lparr>occupations := [True, False, False]\<rparr>, Finite (- 1))"
  proof -
    from metropolis_acceptance [OF ex_init l2 i2 T, of ex_globals "3 / 4"]
    obtain dE E self' where
      s: "energy_diff ex_globals (ex_state\<lparr>occupations := [True, False, True]\<rparr>) (int 2) = Inr dE"
        "MetropolisStep ex_globals 2 (3 / 4) (1 / 10) (ex_state\<lparr>occupations := [True, False, True]\<rparr>)
           = Inr (self', E)"
        "energy ex_globals self' = Inr E"
        "\<forall>d. dE = Finite d \<longrightarrow> (d \<le> 0 \<longrightarrow>
           self' = ex_state\<lparr>occupations := [True, False, True][2 := \<not> [True, False, True] ! 2]\<rparr>)"
      by blast
    have dE: "dE = Finite (- 788129934789837 / 2 ^ 51)" using s(1) d2 by simp
    have "self' = ex_state\<lparr>occupations := [True, False, True][2 := \<not> [True, False, True] ! 2]\<rparr>"
      using s(4) dE neg by blast
    then have self': "self' = ex_state\<lparr>occupations := [True, False, False]\<rparr>" by simp
    then have "E = Finite (- 1)" using s(3) ex_energy_one(1) by simp
    with s(2) self' show ?thesis by simp
  qed
  have b: "MetropolisStep ex_globals 0 0 (1 / 10) (ex_state\<lparr>occupations := [False, False, True]\<rparr>)
     = Inr (ex_state\<lparr>occupations := [True, False, True]\<rparr>, Finite (- 1463669878895411 / 2 ^ 51))"
  proof -
    from metropolis_acceptance [OF ex_init l1 i1 T, of ex_globals 0]
    obtain dE E self' where
      s: "energy_diff ex_globals (ex_state\<lparr>occupations := [False, False, True]\<rparr>) (int 0) = Inr dE"
        "MetropolisStep ex_globals 0 0 (1 / 10) (ex_state\<lparr>occupations := [False, False, True]\<rparr>)
           = Inr (self', E)"
        "energy ex_globals self' = Inr E"
        "\<forall>d. dE = Finite d \<longrightarrow> (0 < d \<longrightarrow> (0 < exp (- d / (1 / 10)) \<longrightarrow>
           self' = ex_state\<lparr>occupations := [False, False, True][0 := \<not> [False, False, True] ! 0]\<rparr>))"
      by blast
    have dE: "dE = Finite (788129934789837 / 2 ^ 51)" using s(1) d0 by simp
    have "self' = ex_state\<lparr>occupations := [False, False, True][0 := \<not> [False, False, True] ! 0]\<rparr>"
      using s(4) dE pos acc by blast
    then have self': "self' = ex_state\<lparr>occupations := [True, False, True]\<rparr>" by simp
    then have "E = Finite (- 1463669878895411 / 2 ^ 51)" using s(3) ex_energy_101 by simp
    with s(2) self' show ?thesis by simp
  qed
  have c: "MetropolisStep ex_globals 0 (3 / 4) (1 / 10) (ex_state\<lparr>occupations := [False, False, True]\<rparr>)
     = Inr (ex_state\<lparr>occupations := [False, False, True]\<rparr>, Finite (- 1))"
  proof -
    from metropolis_acceptance [OF ex_init l1 i1 T, of ex_globals "3 / 4"]
    obtain dE E self' where
      s: "energy_diff ex_globals (ex_state\<lparr>occupations := [False, False, True]\<rparr>) (int 0) = Inr dE"
        "MetropolisStep ex_globals 0 (3 / 4) (1 / 10) (ex_state\<lparr>occupations := [False, False, True]\<rparr>)
           = Inr (self', E)"
        "energy ex_globals self' = Inr E"
        "\<forall>d. dE = Finite d \<longrightarrow> (0 < d \<longrightarrow> (\<not> 3 / 4 < exp (- d / (1 / 10)) \<longrightarrow>
           self' = ex_state\<lparr>occupations := [False, False, True]\<rparr>))"
      by blast
    have dE: "dE = Finite (788129934789837 / 2 ^ 51)" using s(1) d0 by simp
    have self': "self' = ex_state\<lparr>occupations := [False, False, True]\<rparr>"
      using s(4) dE pos rej by blast
    then have "E = Finite (- 1)" using s(3) ex_energy_one(2) by simp
    with s(2) self' show ?thesis by simp
  qed
  from ex_init l1 i1 l2 i2 T d2 neg a d0 pos acc b rej c show ?thesis by blast
qed

end
